theory Spec2Isabelle
  imports Complex_Main "HOL-Library.Log_Nat" "HOL-Library.Char_ord"
    "HOL-Library.List_Lexorder" "HOL-Library.Product_Lexorder" "HOL-Library.Multiset"
begin

section \<open>Levels (gamification.py)\<close>

text \<open>
  \<^verbatim>\<open>GamificationSystem.level_thresholds\<close>: the XP required for each level, ascending.
\<close>

definition level_thresholds :: "int list" where
  "level_thresholds =
     [0, 100, 250, 450, 700, 1000, 1400, 1850, 2350, 2900, 3500,
      4200, 5000, 5900, 6900, 8000, 9200, 10500, 12000, 13600, 15300]"

text \<open>
  \<^verbatim>\<open>get_level\<close>: the loop \<^verbatim>\<open>for level, threshold in enumerate(tbl)\<close> returns
  \<^verbatim>\<open>max(1, level)\<close> at the first threshold above \<^verbatim>\<open>total_xp\<close>, and \<^verbatim>\<open>len(tbl)\<close> when the
  loop runs to its end. The loop is over the table \<open>tbl\<close>; \<open>level\<close> is the running index
  and the list argument is what is left of the table.
\<close>

fun get_level_loop :: "int list \<Rightarrow> nat \<Rightarrow> int list \<Rightarrow> int \<Rightarrow> nat" where
  "get_level_loop tbl level [] total_xp = length tbl"
| "get_level_loop tbl level (threshold # rest) total_xp =
     (if total_xp < threshold then max 1 level
      else get_level_loop tbl (Suc level) rest total_xp)"

definition get_level_of :: "int list \<Rightarrow> int \<Rightarrow> nat" where
  "get_level_of tbl total_xp = get_level_loop tbl 0 tbl total_xp"

definition get_level :: "int \<Rightarrow> nat" where
  "get_level total_xp = get_level_of level_thresholds total_xp"

text \<open>
  The specification's wording of the level rule: one plus the number of thresholds not
  above the XP, clamped between 1 and the length of the table.
\<close>

definition count_reached :: "int list \<Rightarrow> int \<Rightarrow> nat" where
  "count_reached tbl total_xp = length (filter (\<lambda>t. t \<le> total_xp) tbl)"

definition level_spec :: "int \<Rightarrow> nat" where
  "level_spec total_xp =
     max 1 (min (length level_thresholds) (1 + count_reached level_thresholds total_xp))"

section \<open>Streaks (utils.py)\<close>

text \<open>
  Calendar dates are day numbers (\<open>int\<close>); \<^verbatim>\<open>d - timedelta(days=1)\<close> is \<open>d - 1\<close>.
  \<^verbatim>\<open>calculate_streak\<close> reads the date column of the session table and the clock;
  the clock's date is the parameter \<open>today\<close>.

  The loop \<^verbatim>\<open>for date in dates\<close> over the distinct dates, most recent first:
\<close>

fun streak_loop :: "int \<Rightarrow> int list \<Rightarrow> nat \<Rightarrow> nat" where
  "streak_loop current_date [] streak = streak"
| "streak_loop current_date (date # rest) streak =
     (if date = current_date then streak_loop (current_date - 1) rest (Suc streak)
      else streak)"

definition calculate_streak :: "int \<Rightarrow> int list \<Rightarrow> nat" where
  "calculate_streak today date_column =
     (if date_column = [] then 0
      else
        let dates = rev (sort (remdups date_column)) in
        if dates = [] then 0
        else
          let yesterday = today - 1 in
          if hd dates = today then streak_loop today dates 0
          else if hd dates = yesterday then streak_loop yesterday dates 0
          else 0)"

text \<open>
  The specification's streak: the number of consecutive days present in the set, walking
  back from \<open>start\<close>. \<open>run_back S start k\<close> says that this number is \<open>k\<close>.
\<close>

definition run_back :: "int set \<Rightarrow> int \<Rightarrow> nat \<Rightarrow> bool" where
  "run_back S start k \<longleftrightarrow> (\<forall>i<k. start - int i \<in> S) \<and> start - int k \<notin> S"

definition streak_spec :: "int set \<Rightarrow> int \<Rightarrow> nat \<Rightarrow> bool" where
  "streak_spec S now k \<longleftrightarrow>
     (if now \<notin> S \<and> now - 1 \<notin> S then k = 0
      else run_back S (if now \<in> S then now else now - 1) k)"

section \<open>Python floats (IEEE binary64)\<close>

text \<open>
  A finite double is modelled by its exact value, a rational; \<open>rnd\<close> rounds an exact
  result to the nearest double, ties to even, as every IEEE operation and CPython's
  conversions do. \<open>bin_exp x\<close> is the binary exponent \<open>\<lfloor>log\<^sub>2 x\<rfloor>\<close> of a positive \<open>x\<close>;
  a double has 53 significant bits, and the spacing never drops below \<open>2\<^sup>-\<^sup>1\<^sup>0\<^sup>7\<^sup>4\<close>
  (the subnormal range). The sign of a zero is not modelled: \<open>-0.0\<close> and \<open>0.0\<close> are
  equal in every comparison and conversion of the code below.
\<close>

definition bin_exp :: "rat \<Rightarrow> int" where
  "bin_exp x = (if 1 \<le> x then bitlen \<lfloor>x\<rfloor> - 1 else - bitlen (\<lceil>1 / x\<rceil> - 1))"

definition round_half_even :: "rat \<Rightarrow> int" where
  "round_half_even y =
     (let f = \<lfloor>y\<rfloor>; r = y - of_int f in
      if r < 1 / 2 then f
      else if 1 / 2 < r then f + 1
      else if even f then f else f + 1)"

definition ulp_exp :: "rat \<Rightarrow> int" where
  "ulp_exp x = max (bin_exp \<bar>x\<bar> - 52) (- 1074)"

definition rnd :: "rat \<Rightarrow> rat" where
  "rnd x = (if x = 0 then 0
            else of_int (round_half_even (x / 2 powi ulp_exp x)) * 2 powi ulp_exp x)"

datatype pyfloat = Fin rat | PInf | NInf | NaN

definition DBL_MAX :: rat where
  "DBL_MAX = (2 ^ 53 - 1) * 2 ^ 971"

text \<open>The double delivered for the exact result \<open>x\<close>: overflow gives an infinity.\<close>

definition to_double :: "rat \<Rightarrow> pyfloat" where
  "to_double x =
     (let y = rnd x in
      if DBL_MAX < y then PInf else if y < - DBL_MAX then NInf else Fin y)"

text \<open>A float literal of the source text, such as \<^verbatim>\<open>0.7\<close>.\<close>

definition lit :: "rat \<Rightarrow> pyfloat" where
  "lit q = to_double q"

fun fneg :: "pyfloat \<Rightarrow> pyfloat" where
  "fneg (Fin a) = Fin (- a)"
| "fneg PInf = NInf"
| "fneg NInf = PInf"
| "fneg NaN = NaN"

fun fmul :: "pyfloat \<Rightarrow> pyfloat \<Rightarrow> pyfloat" where
  "fmul (Fin a) (Fin b) = to_double (a * b)"
| "fmul NaN _ = NaN"
| "fmul _ NaN = NaN"
| "fmul PInf (Fin b) = (if b = 0 then NaN else if 0 < b then PInf else NInf)"
| "fmul NInf (Fin b) = (if b = 0 then NaN else if 0 < b then NInf else PInf)"
| "fmul (Fin a) PInf = (if a = 0 then NaN else if 0 < a then PInf else NInf)"
| "fmul (Fin a) NInf = (if a = 0 then NaN else if 0 < a then NInf else PInf)"
| "fmul PInf PInf = PInf"
| "fmul PInf NInf = NInf"
| "fmul NInf PInf = NInf"
| "fmul NInf NInf = PInf"

fun fadd :: "pyfloat \<Rightarrow> pyfloat \<Rightarrow> pyfloat" where
  "fadd (Fin a) (Fin b) = to_double (a + b)"
| "fadd NaN _ = NaN"
| "fadd _ NaN = NaN"
| "fadd PInf NInf = NaN"
| "fadd NInf PInf = NaN"
| "fadd PInf _ = PInf"
| "fadd NInf _ = NInf"
| "fadd _ PInf = PInf"
| "fadd _ NInf = NInf"

text \<open>The comparison \<^verbatim>\<open>a < b\<close> of two floats: false whenever a NaN is involved.\<close>

fun flt :: "pyfloat \<Rightarrow> pyfloat \<Rightarrow> bool" where
  "flt (Fin a) (Fin b) = (a < b)"
| "flt NaN _ = False"
| "flt _ NaN = False"
| "flt NInf NInf = False"
| "flt NInf _ = True"
| "flt _ NInf = False"
| "flt PInf _ = False"
| "flt _ PInf = True"

text \<open>\<^verbatim>\<open>min(a, b)\<close> and \<^verbatim>\<open>max(a, b)\<close> keep the first argument unless the second beats it.\<close>

definition py_min :: "pyfloat \<Rightarrow> pyfloat \<Rightarrow> pyfloat" where
  "py_min a b = (if flt b a then b else a)"

definition py_max :: "pyfloat \<Rightarrow> pyfloat \<Rightarrow> pyfloat" where
  "py_max a b = (if flt a b then b else a)"

datatype py_error = OverflowError | ValueError | ZeroDivisionError

text \<open>
  An \<^verbatim>\<open>int\<close> operand of a float operation is converted first (correctly rounded);
  the conversion raises \<^verbatim>\<open>OverflowError\<close> when the integer is beyond the doubles.
\<close>

definition int_to_float :: "int \<Rightarrow> py_error + pyfloat" where
  "int_to_float n =
     (case to_double (of_int n) of Fin y \<Rightarrow> Inr (Fin y) | _ \<Rightarrow> Inl OverflowError)"

text \<open>\<^verbatim>\<open>int(x)\<close> truncates towards zero; it raises on an infinity and on a NaN.\<close>

definition trunc :: "rat \<Rightarrow> int" where
  "trunc y = (if 0 \<le> y then \<lfloor>y\<rfloor> else \<lceil>y\<rceil>)"

fun py_int :: "pyfloat \<Rightarrow> py_error + int" where
  "py_int (Fin y) = Inr (trunc y)"
| "py_int PInf = Inl OverflowError"
| "py_int NInf = Inl OverflowError"
| "py_int NaN = Inl ValueError"

text \<open>
  True division \<^verbatim>\<open>a / b\<close> of two \<^verbatim>\<open>int\<close>s: the correctly rounded quotient.
\<close>

definition int_truediv :: "int \<Rightarrow> int \<Rightarrow> py_error + pyfloat" where
  "int_truediv a b =
     (if b = 0 then Inl ZeroDivisionError
      else case to_double (of_int a / of_int b) of
             Fin y \<Rightarrow> Inr (Fin y) | _ \<Rightarrow> Inl OverflowError)"

text \<open>
  \<^verbatim>\<open>round(x, 1)\<close> of a float: the exact value of \<open>x\<close> is rounded to one decimal (ties
  to even) and the decimal is converted back to the nearest double; an infinity or a NaN
  is returned as it is.
\<close>

fun py_round1 :: "pyfloat \<Rightarrow> py_error + pyfloat" where
  "py_round1 (Fin x) =
     (case to_double (of_int (round_half_even (x * 10)) / 10) of
        Fin y \<Rightarrow> Inr (Fin y) | _ \<Rightarrow> Inl OverflowError)"
| "py_round1 z = Inr z"

section \<open>Session XP (gamification.py)\<close>

definition base_xp_per_minute :: int where
  "base_xp_per_minute = 2"

definition confidence_multiplier :: "int \<rightharpoonup> pyfloat" where
  "confidence_multiplier =
     [1 \<mapsto> lit (1 / 2), 2 \<mapsto> lit (7 / 10), 3 \<mapsto> lit 1, 4 \<mapsto> lit (13 / 10), 5 \<mapsto> lit (3 / 2)]"

definition streak_bonus_multiplier :: pyfloat where
  "streak_bonus_multiplier = lit (1 / 10)"

text \<open>\<^verbatim>\<open>self.confidence_multiplier.get(rating, default)\<close>.\<close>

definition multiplier_get :: "int \<Rightarrow> pyfloat \<Rightarrow> pyfloat" where
  "multiplier_get rating dflt =
     (case confidence_multiplier rating of Some m \<Rightarrow> m | None \<Rightarrow> dflt)"

text \<open>
  \<^verbatim>\<open>calculate_session_xp(duration_minutes, confidence_rating, streak_days)\<close> on Python
  integers. The statements run in the source's order; each conversion of an \<^verbatim>\<open>int\<close>
  operand may raise.
\<close>

definition calculate_session_xp :: "int \<Rightarrow> int \<Rightarrow> int \<Rightarrow> py_error + int" where
  "calculate_session_xp duration_minutes confidence_rating streak_days =
     (let base_xp = duration_minutes * base_xp_per_minute;
          confidence_bonus = multiplier_get confidence_rating (lit 1)
      in case int_to_float streak_days of
           Inl e \<Rightarrow> Inl e
         | Inr sd \<Rightarrow>
             let streak_bonus = py_min (lit (1 / 2)) (fmul sd streak_bonus_multiplier) in
             (case int_to_float base_xp of
                Inl e \<Rightarrow> Inl e
              | Inr b \<Rightarrow>
                  (case py_int (fmul (fmul b confidence_bonus) (fadd (Fin 1) streak_bonus)) of
                     Inl e \<Rightarrow> Inl e
                   | Inr total_xp \<Rightarrow> Inr (max 5 total_xp))))"

text \<open>
  The specification's formula, in exact arithmetic: the table of multipliers as decimal
  fractions, the floor of the product, at least 5.
\<close>

definition multiplier_spec :: "int \<Rightarrow> rat" where
  "multiplier_spec c =
     (if c = 1 then 1 / 2 else if c = 2 then 7 / 10 else if c = 3 then 1
      else if c = 4 then 13 / 10 else if c = 5 then 3 / 2 else 1)"

definition session_xp_spec :: "int \<Rightarrow> int \<Rightarrow> int \<Rightarrow> int" where
  "session_xp_spec d c s =
     max 5 \<lfloor>of_int d * 2 * multiplier_spec c * (1 + min (1 / 2) (of_int s * (1 / 10)))\<rfloor>"

section \<open>The session table and total XP (gamification.py)\<close>

text \<open>
  A row of the study-session table (the columns of the CSV file). The table itself is the
  list of its rows, in file order. The numeric columns hold Python integers when a row is
  read by \<^verbatim>\<open>iterrows\<close>.
\<close>

record session =
  date :: int
  subject :: string
  chapter_name :: string
  duration_minutes :: int
  confidence_rating :: int
  notes_text :: string
  timestamp :: string

text \<open>
  \<^verbatim>\<open>_calculate_streak_for_date\<close>: the distinct dates up to the target date, most
  recent first; 0 unless the first of them is the target date; then the loop over the
  rest counts while each date is the day before the previous one.
\<close>

fun streak_for_date_loop :: "int \<Rightarrow> int list \<Rightarrow> nat \<Rightarrow> nat" where
  "streak_for_date_loop current_date [] streak = streak"
| "streak_for_date_loop current_date (d # rest) streak =
     (if d = current_date - 1 then streak_for_date_loop d rest (Suc streak) else streak)"

definition calculate_streak_for_date :: "session list \<Rightarrow> int \<Rightarrow> nat" where
  "calculate_streak_for_date user_data target_date =
     (let study_dates =
            rev (sort (remdups (map date (filter (\<lambda>s. date s \<le> target_date) user_data))))
      in if study_dates = [] \<or> hd study_dates \<noteq> target_date then 0
         else streak_for_date_loop (hd study_dates) (tl study_dates) 1)"

text \<open>
  \<^verbatim>\<open>calculate_total_xp\<close>: the loop over the rows adds each session's XP, with the streak
  as of that session's date computed on the whole table. An exception of
  \<^verbatim>\<open>calculate_session_xp\<close> ends the loop.
\<close>

fun total_xp_loop :: "session list \<Rightarrow> session list \<Rightarrow> int \<Rightarrow> py_error + int" where
  "total_xp_loop user_data [] total_xp = Inr total_xp"
| "total_xp_loop user_data (s # rest) total_xp =
     (let streak = calculate_streak_for_date user_data (date s) in
      case calculate_session_xp (duration_minutes s) (confidence_rating s) (int streak) of
        Inl e \<Rightarrow> Inl e
      | Inr session_xp \<Rightarrow> total_xp_loop user_data rest (total_xp + session_xp))"

definition calculate_total_xp :: "session list \<Rightarrow> py_error + int" where
  "calculate_total_xp user_data =
     (if user_data = [] then Inr 0 else total_xp_loop user_data user_data 0)"

text \<open>
  The tables pandas can hold: fewer than \<open>2\<^sup>6\<^sup>3\<close> rows, and durations that are 64-bit
  integers (the dtype of an integer column).
\<close>

definition int64 :: "int \<Rightarrow> bool" where
  "int64 n \<longleftrightarrow> - (2 ^ 63) \<le> n \<and> n < 2 ^ 63"

definition int64_table :: "session list \<Rightarrow> bool" where
  "int64_table user_data \<longleftrightarrow>
     int64 (int (length user_data)) \<and> list_all (\<lambda>s. int64 (duration_minutes s)) user_data"

section \<open>Level progress (gamification.py)\<close>

text \<open>
  The dictionary returned by \<^verbatim>\<open>get_level_progress\<close>; at the maximum level it has no
  \<^verbatim>\<open>current_xp\<close> and \<^verbatim>\<open>required_xp\<close> entries, and its \<^verbatim>\<open>progress\<close> is the integer 100
  (equal to the float 100.0).
\<close>

record level_progress =
  current_level :: nat
  progress :: pyfloat
  xp_to_next :: int
  current_xp :: "int option"
  required_xp :: "int option"

definition get_level_progress :: "int \<Rightarrow> py_error + level_progress" where
  "get_level_progress total_xp =
     (let cl = get_level total_xp in
      if length level_thresholds \<le> cl then
        Inr \<lparr>current_level = cl, progress = Fin 100, xp_to_next = 0,
             current_xp = None, required_xp = None\<rparr>
      else
        let current_threshold = (if 1 < cl then level_thresholds ! (cl - 1) else 0);
            next_threshold = level_thresholds ! cl;
            progress_xp = total_xp - current_threshold;
            required = next_threshold - current_threshold
        in case int_truediv progress_xp required of
             Inl e \<Rightarrow> Inl e
           | Inr q \<Rightarrow>
               (case py_round1 (fmul q (Fin 100)) of
                  Inl e \<Rightarrow> Inl e
                | Inr p \<Rightarrow>
                    Inr \<lparr>current_level = cl, progress = p,
                         xp_to_next = next_threshold - total_xp,
                         current_xp = Some progress_xp, required_xp = Some required\<rparr>))"

section \<open>Auxiliary notions for the proofs\<close>

text \<open>
  The value of \<^verbatim>\<open>1 + streak_bonus\<close> and of the session XP when every intermediate result
  is a finite double (no conversion or product overflows); \<open>m\<close> is the value of the
  confidence multiplier.
\<close>

definition streak_factor :: "int \<Rightarrow> rat" where
  "streak_factor s = rnd (1 + min (1 / 2) (rnd (rnd (of_int s) * rnd (1 / 10))))"

definition session_xp_value :: "int \<Rightarrow> rat \<Rightarrow> int \<Rightarrow> int" where
  "session_xp_value d m s =
     max 5 (trunc (rnd (rnd (rnd (of_int (d * 2)) * m) * streak_factor s)))"

text \<open>
  The value of the confidence multiplier of a rating, and the XP of one row of a table
  with the streak as of the row's date, under the same proviso.
\<close>

definition multiplier_value :: "int \<Rightarrow> rat" where
  "multiplier_value c = (case multiplier_get c (lit 1) of Fin m \<Rightarrow> m | _ \<Rightarrow> 0)"

definition row_xp :: "session list \<Rightarrow> session \<Rightarrow> int" where
  "row_xp user_data s =
     session_xp_value (duration_minutes s) (multiplier_value (confidence_rating s))
       (int (calculate_streak_for_date user_data (date s)))"

text \<open>
  The band of a level below the maximum (its lower threshold and its width, as
  \<^verbatim>\<open>get_level_progress\<close> reads them from the table), and the value of the rounded
  percentage for \<open>x\<close> XP into a band of width \<open>r\<close>.
\<close>

definition band_lower :: "nat \<Rightarrow> int" where
  "band_lower cl = (if 1 < cl then level_thresholds ! (cl - 1) else 0)"

definition band_width :: "nat \<Rightarrow> int" where
  "band_width cl = level_thresholds ! cl - band_lower cl"

definition progress_value :: "int \<Rightarrow> int \<Rightarrow> rat" where
  "progress_value x r =
     rnd (of_int (round_half_even (rnd (rnd (of_int x / of_int r) * 100) * 10)) / 10)"

section \<open>Further float operations (ml_analyzer.py)\<close>

text \<open>
  Subtraction and division of numpy doubles; a division by zero gives an infinity or a
  NaN there, it does not raise.
\<close>

definition fsub :: "pyfloat \<Rightarrow> pyfloat \<Rightarrow> pyfloat" where
  "fsub a b = fadd a (fneg b)"

fun fdiv :: "pyfloat \<Rightarrow> pyfloat \<Rightarrow> pyfloat" where
  "fdiv (Fin a) (Fin b) =
     (if b = 0 then (if a = 0 then NaN else if 0 < a then PInf else NInf)
      else to_double (a / b))"
| "fdiv NaN _ = NaN"
| "fdiv _ NaN = NaN"
| "fdiv (Fin a) _ = Fin 0"
| "fdiv PInf (Fin b) = (if 0 \<le> b then PInf else NInf)"
| "fdiv NInf (Fin b) = (if 0 \<le> b then NInf else PInf)"
| "fdiv _ _ = NaN"

text \<open>
  \<^verbatim>\<open>round(2)\<close> of a table column (numpy): multiply by 100, round to the nearest integer
  (ties to even), divide by 100, each step in double precision.
\<close>

fun rint :: "pyfloat \<Rightarrow> pyfloat" where
  "rint (Fin y) = Fin (of_int (round_half_even y))"
| "rint z = z"

definition np_round2 :: "pyfloat \<Rightarrow> pyfloat" where
  "np_round2 x = fdiv (rint (fmul x (Fin 100))) (Fin 100)"

text \<open>
  The mean of an integer column: the sum (exact in double precision below \<open>2\<^sup>5\<^sup>3\<close>)
  divided by the count; NaN on an empty column.
\<close>

definition series_mean :: "int list \<Rightarrow> pyfloat" where
  "series_mean xs =
     (if xs = [] then NaN else to_double (of_int (sum_list xs) / of_int (int (length xs))))"

section \<open>Weak topics (ml_analyzer.py)\<close>

definition weakness_threshold :: pyfloat where
  "weakness_threshold = lit 3"

definition min_sessions_for_analysis :: nat where
  "min_sessions_for_analysis = 3"

text \<open>
  A row of the table built by \<^verbatim>\<open>_prepare_topic_analysis\<close>, one per (subject, chapter)
  group. The aggregation also fills \<^verbatim>\<open>confidence_rating_std\<close> and
  \<^verbatim>\<open>duration_minutes_mean\<close>; no code reads them, and they are left out.
\<close>

record topic_stat =
  ts_subject :: string
  ts_chapter :: string
  confidence_rating_mean :: pyfloat
  confidence_rating_count :: nat
  duration_minutes_sum :: int
  date_min :: int
  date_max :: int
  days_studied :: int
  consistency_score :: pyfloat
  improvement_trend :: pyfloat

text \<open>
  The sum of an integer column is accumulated in 64-bit two's complement and wraps around.
\<close>

definition int64_wrap :: "int \<Rightarrow> int" where
  "int64_wrap n = (n + 2 ^ 63) mod 2 ^ 64 - 2 ^ 63"

text \<open>The rows of one topic, \<^verbatim>\<open>user_data[(subject == s) & (chapter == c)]\<close>.\<close>

definition topic_rows :: "session list \<Rightarrow> string \<Rightarrow> string \<Rightarrow> session list" where
  "topic_rows user_data sub ch =
     filter (\<lambda>s. subject s = sub \<and> chapter_name s = ch) user_data"

text \<open>
  \<^verbatim>\<open>_calculate_improvement_trend\<close>. The library call \<^verbatim>\<open>sort_values('date')\<close> is the
  parameter \<open>sort_values\<close>: it orders the rows by date, and the order in which it leaves
  rows of the same date is its own (the default sorting algorithm is not stable), so the
  two halves, and with them the trend, depend on it.
\<close>

definition calculate_improvement_trend ::
  "(session list \<Rightarrow> session list) \<Rightarrow> session list \<Rightarrow> string \<Rightarrow> string \<Rightarrow> pyfloat" where
  "calculate_improvement_trend sort_values user_data sub ch =
     (let topic_data = sort_values (topic_rows user_data sub ch) in
      if length topic_data < 2 then Fin 0
      else
        let mid_point = length topic_data div 2;
            first_half_avg = series_mean (map confidence_rating (take mid_point topic_data));
            second_half_avg = series_mean (map confidence_rating (drop mid_point topic_data))
        in fsub second_half_avg first_half_avg)"

text \<open>
  \<^verbatim>\<open>_prepare_topic_analysis\<close>: \<^verbatim>\<open>groupby\<close> yields the groups in the order of their sorted
  keys; every group has at least one row.
\<close>

definition topic_keys :: "session list \<Rightarrow> (string \<times> string) list" where
  "topic_keys user_data = sort (remdups (map (\<lambda>s. (subject s, chapter_name s)) user_data))"

definition topic_row ::
  "(session list \<Rightarrow> session list) \<Rightarrow> session list \<Rightarrow> string \<times> string \<Rightarrow> topic_stat" where
  "topic_row sort_values user_data key =
     (let rows = topic_rows user_data (fst key) (snd key);
          dates = map date rows;
          dmin = fold min (tl dates) (hd dates);
          dmax = fold max (tl dates) (hd dates);
          days = dmax - dmin + 1
      in \<lparr>ts_subject = fst key, ts_chapter = snd key,
           confidence_rating_mean = np_round2 (series_mean (map confidence_rating rows)),
           confidence_rating_count = length rows,
           duration_minutes_sum = int64_wrap (sum_list (map duration_minutes rows)),
           date_min = dmin, date_max = dmax, days_studied = days,
           consistency_score = to_double (of_int (int (length rows)) / of_int days),
           improvement_trend =
             calculate_improvement_trend sort_values user_data (fst key) (snd key)\<rparr>)"

definition prepare_topic_analysis ::
  "(session list \<Rightarrow> session list) \<Rightarrow> session list \<Rightarrow> topic_stat list" where
  "prepare_topic_analysis sort_values user_data =
     map (topic_row sort_values user_data) (topic_keys user_data)"

text \<open>
  What \<^verbatim>\<open>sort_values('date')\<close> guarantees of its result: the same rows, in an order of
  non-decreasing date. \<open>sort_values_contract\<close> asks it for the rows of every topic of a
  table.
\<close>

definition date_sorted_permutation :: "session list \<Rightarrow> session list \<Rightarrow> bool" where
  "date_sorted_permutation rows out \<longleftrightarrow> mset out = mset rows \<and> sorted (map date out)"

definition sort_values_contract ::
  "(session list \<Rightarrow> session list) \<Rightarrow> session list \<Rightarrow> bool" where
  "sort_values_contract sort_values user_data \<longleftrightarrow>
     list_all (\<lambda>key. date_sorted_permutation (topic_rows user_data (fst key) (snd key))
                       (sort_values (topic_rows user_data (fst key) (snd key))))
       (topic_keys user_data)"

text \<open>
  \<^verbatim>\<open>_calculate_weakness_score\<close>: the integers 5, 4, 0, 2 and 1 of the source are converted
  to doubles exactly; \<^verbatim>\<open>max(0, x)\<close> and \<^verbatim>\<open>min(1, x)\<close> are Python's.
\<close>

definition calculate_weakness_score :: "topic_stat \<Rightarrow> pyfloat" where
  "calculate_weakness_score topic =
     (let confidence_factor = fdiv (fsub (Fin 5) (confidence_rating_mean topic)) (Fin 4);
          trend_factor = py_max (Fin 0) (fdiv (fneg (improvement_trend topic)) (Fin 2));
          consistency_factor = fsub (Fin 1) (py_min (Fin 1) (consistency_score topic))
      in fadd (fadd (fmul confidence_factor (lit (1 / 2))) (fmul trend_factor (lit (3 / 10))))
              (fmul consistency_factor (lit (2 / 10))))"

text \<open>An entry of the list of weak topics.\<close>

record weak_topic =
  wt_subject :: string
  wt_chapter :: string
  avg_confidence :: pyfloat
  total_time :: int
  sessions :: nat
  wt_improvement_trend :: pyfloat
  weakness_score :: pyfloat

definition is_weak :: "topic_stat \<Rightarrow> bool" where
  "is_weak topic \<longleftrightarrow>
     flt (confidence_rating_mean topic) weakness_threshold
     \<or> (flt (improvement_trend topic) (lit (- (1 / 2))) \<and> 3 \<le> confidence_rating_count topic)
     \<or> (flt (consistency_score topic) (lit (3 / 10)) \<and> 2 \<le> confidence_rating_count topic)"

definition weak_entry :: "topic_stat \<Rightarrow> weak_topic" where
  "weak_entry topic =
     \<lparr>wt_subject = ts_subject topic, wt_chapter = ts_chapter topic,
      avg_confidence = confidence_rating_mean topic,
      total_time = duration_minutes_sum topic,
      sessions = confidence_rating_count topic,
      wt_improvement_trend = improvement_trend topic,
      weakness_score = calculate_weakness_score topic\<rparr>"

text \<open>
  The key of the final sort: the value of a finite score (the scores of the entries are
  finite doubles).
\<close>

fun fin_value :: "pyfloat \<Rightarrow> rat" where
  "fin_value (Fin x) = x"
| "fin_value _ = 0"

text \<open>
  \<^verbatim>\<open>_identify_weak_topics\<close>: the loop keeps the weak topics with at least three
  sessions; the list is then sorted by decreasing score, equal scores staying in order.
\<close>

definition identify_weak_topics :: "topic_stat list \<Rightarrow> weak_topic list" where
  "identify_weak_topics topic_analysis =
     sort_key (\<lambda>w. - fin_value (weakness_score w))
       (map weak_entry
          (filter (\<lambda>topic. is_weak topic
                     \<and> min_sessions_for_analysis \<le> confidence_rating_count topic)
             topic_analysis))"

section \<open>Recommendations (ml_analyzer.py)\<close>

text \<open>
  The parts of the \<^verbatim>\<open>insights\<close> dictionary that \<^verbatim>\<open>_generate_recommendations\<close> reads. The
  dictionary is the result of \<^verbatim>\<open>_generate_ml_insights\<close>, which calls the clustering and
  data-frame libraries; it is a parameter of the model. An absent key is \<open>None\<close>.
\<close>

record study_patterns =
  pattern_status :: "string option"
  most_productive_day :: "string option"
  avg_session_length :: "pyfloat option"

record performance_prediction =
  prediction_status :: "string option"
  confidence_trend :: pyfloat
  time_trend :: pyfloat

record insights =
  study_patterns_of :: "study_patterns option"
  performance_prediction_of :: "performance_prediction option"

text \<open>\<^verbatim>\<open>sep.join(xs)\<close>.\<close>

fun join :: "string \<Rightarrow> string list \<Rightarrow> string" where
  "join sep [] = []"
| "join sep [x] = x"
| "join sep (x # y # ys) = x @ sep @ join sep (y # ys)"

definition topic_label :: "weak_topic \<Rightarrow> string" where
  "topic_label t = wt_subject t @ '' - '' @ wt_chapter t"

text \<open>The loop over the three weakest topics.\<close>

fun weak_topic_notes :: "weak_topic list \<Rightarrow> string list" where
  "weak_topic_notes [] = []"
| "weak_topic_notes (topic # rest) =
     (if flt (wt_improvement_trend topic) (Fin 0) then
        ['' '' @ topic_label topic @ '': Try different study methods, confidence is declining'']
      else if sessions topic < 5 then
        ['' '' @ topic_label topic @ '': Needs more practice sessions'']
      else [])
     @ weak_topic_notes rest"

definition weakness_recommendations :: "weak_topic list \<Rightarrow> string list" where
  "weakness_recommendations weak_topics =
     (if weak_topics = [] then []
      else
        let top_weak = take 3 weak_topics in
        [''Focus on these weak areas: '' @ join '', '' (map topic_label top_weak)]
        @ weak_topic_notes top_weak)"

definition pattern_recommendations :: "insights \<Rightarrow> string list" where
  "pattern_recommendations ins =
     (case study_patterns_of ins of
        None \<Rightarrow> []
      | Some patterns \<Rightarrow>
          if pattern_status patterns = Some ''pattern_analysis_failed'' then []
          else
            (case most_productive_day patterns of
               None \<Rightarrow> []
             | Some day \<Rightarrow>
                 [''You perform best on '' @ day
                  @ ''s - consider scheduling important topics then''])
            @ (case avg_session_length patterns of
                 None \<Rightarrow> []
               | Some avg_length \<Rightarrow>
                   if flt avg_length (Fin 20) then
                     [''Consider longer study sessions (20-45 minutes) for better retention'']
                   else if flt (Fin 90) avg_length then
                     [''Break down long sessions into smaller chunks with breaks'']
                   else []))"

definition trend_recommendations :: "insights \<Rightarrow> string list" where
  "trend_recommendations ins =
     (case performance_prediction_of ins of
        None \<Rightarrow> []
      | Some pred \<Rightarrow>
          if prediction_status pred \<noteq> Some ''success'' then []
          else
            (if flt (confidence_trend pred) (lit (- (2 / 10))) then
               [''Your confidence has been declining recently - consider reviewing fundamentals'']
             else if flt (lit (2 / 10)) (confidence_trend pred) then
               [''Great progress! Your confidence is improving - keep up the momentum'']
             else [])
            @ (if flt (time_trend pred) (Fin (- 10)) then
                 [''You've been studying less lately - try to maintain consistency'']
               else []))"

definition consistency_recommendations :: "session list \<Rightarrow> string list" where
  "consistency_recommendations user_data =
     (if 10 \<le> length user_data then
        let dates = map date user_data;
            latest = fold max (tl dates) (hd dates);
            recent_consistency = length (filter (\<lambda>s. latest - 7 \<le> date s) user_data)
        in if recent_consistency < 3 then
             [''Try to study more consistently - aim for at least 3 sessions per week'']
           else []
      else [])"

definition diversity_recommendations :: "session list \<Rightarrow> string list" where
  "diversity_recommendations user_data =
     (let subject_count = length (remdups (map subject user_data)) in
      if subject_count = 1 then
        [''Consider diversifying your subjects to maintain engagement'']
      else if 5 < subject_count then
        [''You're studying many subjects - ensure you're giving enough attention to each'']
      else [])"

definition generate_recommendations ::
  "weak_topic list \<Rightarrow> insights \<Rightarrow> session list \<Rightarrow> string list" where
  "generate_recommendations weak_topics ins user_data =
     (let recommendations =
            weakness_recommendations weak_topics @ pattern_recommendations ins
            @ trend_recommendations ins @ consistency_recommendations user_data
            @ diversity_recommendations user_data;
          recommendations =
            (if recommendations = [] then
               [''Great job! No major issues detected. Keep maintaining your study routine!'']
             else recommendations)
      in take 6 recommendations)"

text \<open>
  \<^verbatim>\<open>analyze_weaknesses\<close>. The parameter \<open>ml\<close> stands for \<^verbatim>\<open>_generate_ml_insights\<close>; \<open>Inl e\<close>
  is an exception with message \<open>e\<close> raised while the \<^verbatim>\<open>try\<close> block runs, which the
  \<^verbatim>\<open>except Exception\<close> clause turns into the error message.
\<close>

definition analyze_weaknesses ::
  "(session list \<Rightarrow> session list) \<Rightarrow> (session list \<Rightarrow> topic_stat list \<Rightarrow> string + insights)
     \<Rightarrow> session list \<Rightarrow> weak_topic list \<times> string list" where
  "analyze_weaknesses sort_values ml user_data =
     (if user_data = [] \<or> length user_data < 5 then
        ([], [''Need more study sessions for accurate analysis.''])
      else
        let topic_analysis = prepare_topic_analysis sort_values user_data;
            weak_topics = identify_weak_topics topic_analysis
        in case ml user_data topic_analysis of
             Inl e \<Rightarrow> ([], [''Analysis error: '' @ e @ ''. Please try again with more data.''])
           | Inr ins \<Rightarrow> (weak_topics, generate_recommendations weak_topics ins user_data))"

section \<open>Spending forecast (ml_analyzer.py)\<close>

text \<open>A row of the expense table; the amounts are a column of doubles.\<close>

record expense =
  expense_id :: string
  amount :: pyfloat
  category :: string
  expense_date :: int
  description :: string

datatype series_type = Historical | Forecast

text \<open>
  The table \<^verbatim>\<open>daily_spending\<close>: one row per distinct date in date order, with the days
  since the first date and the sum of the amounts of the date. That sum is the library's
  group sum of a column of doubles, the parameter \<open>gsum\<close>: in which order it adds, and with
  which compensation, is the library's own.
\<close>

definition daily_spending ::
  "(pyfloat list \<Rightarrow> pyfloat) \<Rightarrow> expense list \<Rightarrow> (int \<times> pyfloat) list" where
  "daily_spending gsum expense_data =
     (let dates = sort (remdups (map expense_date expense_data)) in
      map (\<lambda>d. (d - hd dates,
                 gsum (map amount (filter (\<lambda>e. expense_date e = d) expense_data))))
        dates)"

text \<open>
  \<^verbatim>\<open>cumsum\<close> of a column: the entries are added from left to right in double precision,
  the first one taken as it is; a NaN entry counts as 0 in the running sum and stays NaN
  in the result.
\<close>

fun accumulate :: "pyfloat \<Rightarrow> pyfloat list \<Rightarrow> pyfloat list" where
  "accumulate acc [] = []"
| "accumulate acc (x # xs) = fadd acc x # accumulate (fadd acc x) xs"

definition np_cumsum :: "pyfloat list \<Rightarrow> pyfloat list" where
  "np_cumsum xs = (case xs of [] \<Rightarrow> [] | x # rest \<Rightarrow> x # accumulate x rest)"

definition cumsum :: "pyfloat list \<Rightarrow> pyfloat list" where
  "cumsum xs =
     map (\<lambda>(x, r). if x = NaN then NaN else r)
       (zip xs (np_cumsum (map (\<lambda>x. if x = NaN then Fin 0 else x) xs)))"

text \<open>
  \<^verbatim>\<open>LinearRegression().fit(X, y)\<close> with one feature is the library's least-squares solver,
  the parameter \<open>regress\<close>: from the days and the cumulative amounts it returns the
  intercept and the slope of the fitted line as doubles, or it raises. \<^verbatim>\<open>predict\<close>
  evaluates the line in double precision: the day times the slope, plus the intercept.
\<close>

definition predict :: "pyfloat \<times> pyfloat \<Rightarrow> int \<Rightarrow> pyfloat" where
  "predict model x = fadd (fmul (to_double (of_int x)) (snd model)) (fst model)"

text \<open>
  \<^verbatim>\<open>forecast_spending\<close>. \<open>fmt\<close> is the formatting \<^verbatim>\<open>:.2f\<close> of the last prediction and
  \<open>rupee\<close> the currency sign of the message (U+20B9, in UTF-8). With no day to predict,
  \<^verbatim>\<open>predict\<close> raises on the empty array.
\<close>

definition rupee :: string where
  "rupee = [CHR 0xE2, CHR 0x82, CHR 0xB9]"

definition forecast_spending ::
  "(pyfloat list \<Rightarrow> pyfloat) \<Rightarrow> (int list \<Rightarrow> pyfloat list \<Rightarrow> py_error + pyfloat \<times> pyfloat)
     \<Rightarrow> (pyfloat \<Rightarrow> string) \<Rightarrow> (int \<Rightarrow> string) \<Rightarrow> expense list \<Rightarrow> int
     \<Rightarrow> py_error + ((int \<times> pyfloat \<times> series_type) list option \<times> string)" where
  "forecast_spending gsum regress fmt str expense_data forecast_days =
     (if length expense_data < 5 then
        Inr (None, ''Need at least 5 expenses for an accurate forecast.'')
      else
        let daily = daily_spending gsum expense_data in
        if length daily < 2 then
          Inr (None, ''Need expenses on at least 2 different days for a forecast.'')
        else
          let X = map fst daily;
              y = cumsum (map snd daily)
          in case regress X y of
               Inl e \<Rightarrow> Inl e
             | Inr model \<Rightarrow>
                 let last_day = fold max (tl X) (hd X);
                     future_days = map (\<lambda>i. last_day + 1 + int i) [0..<nat forecast_days]
                 in if future_days = [] then Inl ValueError
                    else
                      let future_predictions = map (predict model) future_days in
                      Inr (Some (map (\<lambda>(d, v). (d, v, Historical)) (zip X y)
                                  @ map (\<lambda>(d, v). (d, v, Forecast))
                                      (zip future_days future_predictions)),
                            ''Predicted total spending in the next '' @ str forecast_days
                            @ '' days could reach around '' @ rupee
                            @ fmt (last future_predictions) @ ''.''))"

text \<open>
  The training data that \<^verbatim>\<open>forecast_spending\<close> hands to the solver (the days and the
  cumulative amounts), the result of the solver on them, and the first historical
  cumulative value.
\<close>

definition training_days :: "(pyfloat list \<Rightarrow> pyfloat) \<Rightarrow> expense list \<Rightarrow> int list" where
  "training_days gsum expense_data = map fst (daily_spending gsum expense_data)"

definition training_values :: "(pyfloat list \<Rightarrow> pyfloat) \<Rightarrow> expense list \<Rightarrow> pyfloat list" where
  "training_values gsum expense_data = cumsum (map snd (daily_spending gsum expense_data))"

definition fitted_model ::
  "(int list \<Rightarrow> pyfloat list \<Rightarrow> py_error + pyfloat \<times> pyfloat) \<Rightarrow> (pyfloat list \<Rightarrow> pyfloat)
     \<Rightarrow> expense list \<Rightarrow> py_error + pyfloat \<times> pyfloat" where
  "fitted_model regress gsum expense_data =
     regress (training_days gsum expense_data) (training_values gsum expense_data)"

definition first_cumulative :: "(pyfloat list \<Rightarrow> pyfloat) \<Rightarrow> expense list \<Rightarrow> pyfloat" where
  "first_cumulative gsum expense_data = hd (training_values gsum expense_data)"

text \<open>
  The ordinary-least-squares line of the specification, in exact arithmetic: the intercept
  and the slope that minimise the sum of the squared residuals over the points \<open>(X\<^sub>i, y\<^sub>i)\<close>.
  It is the reference against which the result of the solver is measured, not a step of
  the program.
\<close>

definition mean :: "rat list \<Rightarrow> rat" where
  "mean xs = sum_list xs / of_nat (length xs)"

definition least_squares :: "rat list \<Rightarrow> rat list \<Rightarrow> rat \<times> rat" where
  "least_squares X y =
     (let xbar = mean X; ybar = mean y;
          sxy = sum_list (map (\<lambda>(x, v). (x - xbar) * (v - ybar)) (zip X y));
          sxx = sum_list (map (\<lambda>x. (x - xbar) * (x - xbar)) X);
          slope = sxy / sxx
      in (ybar - slope * xbar, slope))"


text \<open>
  The floating tolerance of the solver on given training data: the data are finite, the
  solver returns (it does not raise) two doubles, and each is within \<open>tol\<close> of the
  coefficient of the exact least-squares line.
\<close>

definition finite_float :: "pyfloat \<Rightarrow> bool" where
  "finite_float f = (case f of Fin v \<Rightarrow> True | _ \<Rightarrow> False)"

definition is_double :: "pyfloat \<Rightarrow> bool" where
  "is_double f = (case f of Fin v \<Rightarrow> rnd v = v \<and> \<bar>v\<bar> \<le> DBL_MAX | _ \<Rightarrow> False)"

definition fit_within ::
  "rat \<Rightarrow> int list \<Rightarrow> pyfloat list \<Rightarrow> py_error + pyfloat \<times> pyfloat \<Rightarrow> bool" where
  "fit_within tol X y result \<longleftrightarrow>
     list_all finite_float y
     \<and> (case result of
          Inl e \<Rightarrow> False
        | Inr model \<Rightarrow>
            is_double (fst model) \<and> is_double (snd model)
            \<and> \<bar>fin_value (fst model)
                 - fst (least_squares (map of_int X) (map fin_value y))\<bar> \<le> tol
            \<and> \<bar>fin_value (snd model)
                 - snd (least_squares (map of_int X) (map fin_value y))\<bar> \<le> tol)"

text \<open>
  Two stand-ins for the library calls, for concrete instances only: the plain sum from
  left to right (NaN entries skipped), and the solver that returns the coefficients of the
  exact least-squares line rounded to doubles (and raises on data that are not finite).
\<close>

definition sequential_sum :: "pyfloat list \<Rightarrow> pyfloat" where
  "sequential_sum xs = fold (\<lambda>x acc. fadd acc x) (filter (\<lambda>x. x \<noteq> NaN) xs) (Fin 0)"

definition rounded_least_squares ::
  "int list \<Rightarrow> pyfloat list \<Rightarrow> py_error + pyfloat \<times> pyfloat" where
  "rounded_least_squares X y =
     (if list_all finite_float y then
        let ls = least_squares (map of_int X) (map fin_value y)
        in Inr (to_double (fst ls), to_double (snd ls))
      else Inl ValueError)"

text \<open>A float that is finite with a value in an interval (for the proofs).\<close>

definition fin_between :: "rat \<Rightarrow> rat \<Rightarrow> pyfloat \<Rightarrow> bool" where
  "fin_between lo hi f \<longleftrightarrow> (\<exists>v. f = Fin v \<and> lo \<le> v \<and> v \<le> hi)"

section \<open>Properties of the level table\<close>

lemma get_level_loop_count:
  assumes "sorted (pre @ rest)" and "\<forall>t\<in>set pre. t \<le> xp"
  shows "get_level_loop tbl (length pre) rest xp =
           (if \<forall>t\<in>set rest. t \<le> xp then length tbl
            else max 1 (length pre + length (filter (\<lambda>t. t \<le> xp) rest)))"
  using assms
proof (induction rest arbitrary: pre)
  case Nil
  then show ?case by simp
next
  case (Cons t rest)
  show ?case
  proof (cases "xp < t")
    case True
    from Cons.prems(1) have "\<forall>u\<in>set rest. t \<le> u"
      by (simp add: sorted_append)
    with True have "filter (\<lambda>u. u \<le> xp) rest = []"
      by (auto simp: filter_empty_conv)
    with True show ?thesis by auto
  next
    case False
    have s: "sorted ((pre @ [t]) @ rest)" using Cons.prems(1) by simp
    have p: "\<forall>u\<in>set (pre @ [t]). u \<le> xp" using Cons.prems(2) False by auto
    from Cons.IH [OF s p] False show ?thesis by simp
  qed
qed

lemma get_level_of_count:
  assumes "sorted tbl" and "tbl \<noteq> []"
  shows "get_level_of tbl xp = max 1 (count_reached tbl xp)"
proof -
  have "get_level_loop tbl (length ([]::int list)) tbl xp =
          (if \<forall>t\<in>set tbl. t \<le> xp then length tbl
           else max 1 (length ([]::int list) + length (filter (\<lambda>t. t \<le> xp) tbl)))"
    by (rule get_level_loop_count) (use assms in simp_all)
  moreover have "(\<forall>t\<in>set tbl. t \<le> xp) \<Longrightarrow> filter (\<lambda>t. t \<le> xp) tbl = tbl"
    by (simp add: filter_id_conv)
  moreover have "(\<forall>t\<in>set tbl. t \<le> xp) \<Longrightarrow> tbl \<noteq> [] \<Longrightarrow> 1 \<le> length tbl"
    by (cases tbl) simp_all
  ultimately show ?thesis
    using assms(2) by (auto simp: get_level_of_def count_reached_def)
qed

lemma sorted_level_thresholds: "sorted level_thresholds"
  by (simp add: level_thresholds_def)

lemma level_thresholds_nonempty: "level_thresholds \<noteq> []"
  by (simp add: level_thresholds_def)

lemma length_level_thresholds: "length level_thresholds = 21"
  by (simp add: level_thresholds_def)

lemma get_level_mono: "a \<le> b \<Longrightarrow> get_level a \<le> get_level b"
proof -
  assume ab: "a \<le> b"
  have "length (filter (\<lambda>t. t \<le> a) level_thresholds)
          \<le> length (filter (\<lambda>t. t \<le> a \<and> t \<le> b) level_thresholds)"
    using ab by (intro eq_imp_le arg_cong [where f = length] filter_cong) auto
  also have "\<dots> = length (filter (\<lambda>t. t \<le> a) (filter (\<lambda>t. t \<le> b) level_thresholds))"
    by (simp add: conj_commute)
  also have "\<dots> \<le> length (filter (\<lambda>t. t \<le> b) level_thresholds)"
    by (rule length_filter_le)
  finally show ?thesis
    by (simp add: get_level_def get_level_of_count [OF sorted_level_thresholds level_thresholds_nonempty]
        count_reached_def)
qed

lemma get_level_max_count: "get_level xp = max 1 (count_reached level_thresholds xp)"
  by (simp add: get_level_def
      get_level_of_count [OF sorted_level_thresholds level_thresholds_nonempty])

text \<open>
  C4. The level is 1 at 0 and 99 XP, 2 at 100 XP, 21 at 15300 XP, and 21 for every total
  at or above the last threshold 15300 (so also at 999999): beyond the table the level
  saturates, and the function returns a level on every integer.
\<close>

theorem get_level_saturates:
  "get_level 0 = 1 \<and> get_level 99 = 1 \<and> get_level 100 = 2 \<and> get_level 15300 = 21
   \<and> get_level 999999 = 21
   \<and> (\<forall>total_xp. 15300 \<le> total_xp \<longrightarrow> get_level total_xp = 21)"
  by (simp add: get_level_def get_level_of_def level_thresholds_def)

theorem get_level_saturates_witness:
  "(15300::int) \<le> 20000 \<and> get_level 20000 = 21"
  using get_level_saturates by simp

text \<open>
  C5 as the specification words it (one plus the count of thresholds reached) fails at
  0 XP: one threshold (the 0) is reached, the rule gives 2, the code returns level 1.
\<close>

theorem level_spec_counterexample:
  "get_level 0 = 1 \<and> level_spec 0 = 2"
  by (simp add: get_level_def get_level_of_def level_spec_def count_reached_def
      level_thresholds_def)

text \<open>
  C5, amended. For every integer total, the level is the number of thresholds of the
  table that are less than or equal to the total (without the added one), clamped to at
  least 1 and at most 21, the length of the table.
\<close>

theorem get_level_count:
  "get_level total_xp =
     max 1 (min (length level_thresholds) (count_reached level_thresholds total_xp))
   \<and> length level_thresholds = 21"
proof -
  have "count_reached level_thresholds total_xp \<le> length level_thresholds"
    by (simp add: count_reached_def)
  then show ?thesis
    by (simp add: get_level_max_count length_level_thresholds min_absorb2)
qed

section \<open>Properties of the streak\<close>

lemma streak_loop_run_back:
  assumes "sorted (rev ds)" and "distinct ds" and "\<forall>d\<in>set ds. d \<le> cur"
  shows "\<exists>k. streak_loop cur ds n = n + k \<and> run_back (set ds) cur k"
  using assms
proof (induction ds arbitrary: cur n)
  case Nil
  then show ?case by (simp add: run_back_def)
next
  case (Cons d rest)
  from Cons.prems have below: "\<forall>u\<in>set rest. u < d"
    by (auto simp: sorted_append less_le)
  show ?case
  proof (cases "d = cur")
    case True
    have s: "sorted (rev rest)" using Cons.prems(1) by (simp add: sorted_append)
    have d: "distinct rest" using Cons.prems(2) by simp
    have b: "\<forall>u\<in>set rest. u \<le> cur - 1" using below True by auto
    from Cons.IH [OF s d b, of "Suc n"] obtain k where
      k: "streak_loop (cur - 1) rest (Suc n) = Suc n + k" "run_back (set rest) (cur - 1) k"
      by blast
    have "run_back (set (d # rest)) cur (Suc k)"
      unfolding run_back_def
    proof (intro conjI allI impI)
      fix i assume "i < Suc k"
      show "cur - int i \<in> set (d # rest)"
      proof (cases i)
        case 0
        then show ?thesis using True by simp
      next
        case (Suc j)
        with \<open>i < Suc k\<close> have "j < k" by simp
        with k(2) have "cur - 1 - int j \<in> set rest" by (simp add: run_back_def)
        then show ?thesis using Suc by (simp add: algebra_simps)
      qed
    next
      from k(2) have "cur - 1 - int k \<notin> set rest" by (simp add: run_back_def)
      then show "cur - int (Suc k) \<notin> set (d # rest)"
        using True by (simp add: algebra_simps)
    qed
    with k(1) True show ?thesis
      by (intro exI [of _ "Suc k"]) simp
  next
    case False
    with Cons.prems(3) have "d < cur" by simp
    with below have "cur \<notin> set (d # rest)" by auto
    then have "run_back (set (d # rest)) cur 0" by (simp add: run_back_def)
    with False show ?thesis by (intro exI [of _ 0]) simp
  qed
qed

lemma sorted_le_last: "sorted (xs::int list) \<Longrightarrow> \<forall>x\<in>set xs. x \<le> last xs"
  by (induction xs) auto

lemma dates_desc:
  "sorted (rev (rev (sort (remdups col))))" "distinct (rev (sort (remdups col)))"
  "set (rev (sort (remdups col))) = set col"
  by simp_all

lemma hd_dates_max:
  fixes col :: "int list"
  assumes "col \<noteq> []"
  shows "hd (rev (sort (remdups col))) \<in> set col"
    and "\<forall>d\<in>set col. d \<le> hd (rev (sort (remdups col)))"
proof -
  let ?ds = "sort (remdups col)"
  have ne: "?ds \<noteq> []" using assms by (metis set_empty set_remdups set_sort)
  then have h: "hd (rev ?ds) = last ?ds" by (simp add: hd_rev)
  from ne have "last ?ds \<in> set ?ds" by (rule last_in_set)
  then show "hd (rev ?ds) \<in> set col" using h by simp
  have "sorted ?ds" by simp
  then have "\<forall>d\<in>set ?ds. d \<le> last ?ds"
    by (rule sorted_le_last)
  then show "\<forall>d\<in>set col. d \<le> hd (rev ?ds)" using h by simp
qed

text \<open>
  With no session dated after today, \<^verbatim>\<open>calculate_streak\<close> computes the streak of the
  specification.
\<close>

lemma calculate_streak_no_future:
  assumes "\<forall>d\<in>set col. d \<le> today"
  shows "streak_spec (set col) today (calculate_streak today col)"
proof (cases "col = []")
  case True
  then show ?thesis by (simp add: calculate_streak_def streak_spec_def)
next
  case False
  let ?ds = "rev (sort (remdups col))"
  have ne: "?ds \<noteq> []" using False by (metis rev_is_Nil_conv set_empty set_remdups set_sort)
  note mx = hd_dates_max [OF False]
  have loop: "\<forall>d\<in>set ?ds. d \<le> cur \<Longrightarrow> run_back (set col) cur (streak_loop cur ?ds 0)" for cur
    using streak_loop_run_back [of ?ds cur 0] by auto
  consider (a) "today \<in> set col" | (b) "today \<notin> set col" "today - 1 \<in> set col"
    | (c) "today \<notin> set col" "today - 1 \<notin> set col" by blast
  then show ?thesis
  proof cases
    case a
    with mx assms have "hd ?ds = today" by (meson order_antisym)
    moreover have "run_back (set col) today (streak_loop today ?ds 0)"
      using assms by (intro loop) simp
    ultimately show ?thesis using a False ne
      by (simp add: calculate_streak_def streak_spec_def Let_def)
  next
    case b
    have le: "\<forall>d\<in>set col. d \<le> today - 1"
      using assms b(1) by (metis order_le_less zle_diff1_eq)
    with mx b have "hd ?ds = today - 1" by (meson order_antisym)
    moreover have "run_back (set col) (today - 1) (streak_loop (today - 1) ?ds 0)"
      using le by (intro loop) simp
    ultimately show ?thesis using b False ne
      by (simp add: calculate_streak_def streak_spec_def Let_def)
  next
    case c
    with mx(1) have "hd ?ds \<noteq> today" "hd ?ds \<noteq> today - 1" by auto
    then show ?thesis using c False ne
      by (simp add: calculate_streak_def streak_spec_def Let_def)
  qed
qed

text \<open>
  The two instances of the specification: three consecutive days ending today give 3,
  and a gap after today gives 1.
\<close>

lemma calculate_streak_instances:
  "calculate_streak d [d, d - 1, d - 2] = 3 \<and> calculate_streak d [d, d - 2] = 1"
  by (simp add: calculate_streak_def)

text \<open>
  C2. The streak of a set of dates at an evaluation date is 0 when neither that date nor
  the day before is in the set, and otherwise the number of consecutive present days
  walking back from the more recent of the two. \<^verbatim>\<open>calculate_streak\<close> meets this on
  every table with no date after today (\<open>calculate_streak_no_future\<close>); it misses it
  when a session is dated after today: the most recent date is then neither today nor
  yesterday and the function returns 0, although today is in the set and yesterday is
  not, so that the streak is 1.
\<close>

theorem calculate_streak_future_date:
  "(10::int) \<in> set [11, 10] \<and> (10::int) - 1 \<notin> set [11, 10]
   \<and> calculate_streak 10 [11, 10] = 0"
  by (simp add: calculate_streak_def)

section \<open>Properties of the rounding\<close>

lemma pow2_less_iff: "(2::rat) powi a < 2 powi b \<longleftrightarrow> a < b"
proof
  assume h: "(2::rat) powi a < 2 powi b"
  show "a < b"
  proof (rule ccontr)
    assume "\<not> a < b"
    then have "b \<le> a" by simp
    then have "(2::rat) powi b \<le> 2 powi a" by (intro power_int_increasing) simp_all
    with h show False by simp
  qed
next
  assume "a < b"
  then show "(2::rat) powi a < 2 powi b" by (intro power_int_strict_increasing) simp_all
qed

lemma pow2_le_iff: "(2::rat) powi a \<le> 2 powi b \<longleftrightarrow> a \<le> b"
  using pow2_less_iff [of b a] by (auto simp: not_less [symmetric])

lemma pow2_pos: "0 < (2::rat) powi e"
  by simp

lemma pow2_Suc: "(2::rat) powi (e + 1) = 2 * 2 powi e"
  by (simp add: power_int_add)

lemma bin_exp_bounds:
  assumes "0 < x"
  shows "2 powi bin_exp x \<le> x" and "x < 2 powi (bin_exp x + 1)"
proof -
  have "2 powi bin_exp x \<le> x \<and> x < 2 powi (bin_exp x + 1)"
  proof (cases "1 \<le> x")
    case True
    define n where "n = \<lfloor>x\<rfloor>"
    have n1: "1 \<le> n" using True by (simp add: n_def le_floor_iff)
    then have npos: "0 < n" by simp
    from bitlen_bounds [OF npos] have lo: "2 ^ nat (bitlen n - 1) \<le> n" and hi: "n < 2 ^ nat (bitlen n)"
      by simp_all
    have bl: "1 \<le> bitlen n" using n1 by (simp add: bitlen_ge_iff_power)
    have be: "bin_exp x = bitlen n - 1" using True by (simp add: bin_exp_def n_def)
    have "(2::rat) powi (bitlen n - 1) = 2 ^ nat (bitlen n - 1)"
      using bl by (simp add: power_int_nonneg_exp)
    also have "\<dots> = of_int (2 ^ nat (bitlen n - 1))" by simp
    also have "\<dots> \<le> of_int n" using lo by (simp only: of_int_le_iff)
    also have "\<dots> \<le> x" by (simp add: n_def)
    finally have A: "2 powi bin_exp x \<le> x" by (simp add: be)
    have "x < of_int n + 1" unfolding n_def by linarith
    also have "\<dots> = of_int (n + 1)" by simp
    also have "\<dots> \<le> of_int (2 ^ nat (bitlen n))" using hi unfolding of_int_le_iff by linarith
    also have "\<dots> = 2 powi (bitlen n)" using bl by (simp add: power_int_nonneg_exp)
    finally have B: "x < 2 powi (bin_exp x + 1)" by (simp add: be)
    from A B show ?thesis ..
  next
    case False
    define y where "y = 1 / x"
    have y1: "1 < y" using False assms by (simp add: y_def)
    define n where "n = \<lceil>y\<rceil> - 1"
    have n1: "1 \<le> n" using y1 by (simp add: n_def less_ceiling_iff)
    then have npos: "0 < n" by simp
    have ny: "of_int n < y" "y \<le> of_int n + 1"
      using ceiling_correct [of y] by (simp_all add: n_def)
    from bitlen_bounds [OF npos] have lo: "2 ^ nat (bitlen n - 1) \<le> n" and hi: "n < 2 ^ nat (bitlen n)"
      by simp_all
    have bl: "1 \<le> bitlen n" using n1 by (simp add: bitlen_ge_iff_power)
    have be: "bin_exp x = - bitlen n" using False by (simp add: bin_exp_def n_def y_def)
    have "(2::rat) ^ nat (bitlen n - 1) = of_int (2 ^ nat (bitlen n - 1))" by simp
    also have "\<dots> \<le> of_int n" using lo by (simp only: of_int_le_iff)
    also have "\<dots> < y" by (rule ny)
    finally have ylo: "(2::rat) powi (bitlen n - 1) < y" using bl by (simp add: power_int_nonneg_exp)
    have "y \<le> of_int (n + 1)" using ny by simp
    also have "\<dots> \<le> of_int (2 ^ nat (bitlen n))" using hi unfolding of_int_le_iff by linarith
    also have "\<dots> = 2 powi (bitlen n)" using bl by (simp add: power_int_nonneg_exp)
    finally have yhi: "y \<le> 2 powi (bitlen n)" .
    have xy: "x = 1 / y" using assms by (simp add: y_def)
    have ypos: "0 < y" using y1 by simp
    have A: "2 powi (- bitlen n) \<le> x"
      unfolding xy power_int_minus_divide using yhi ypos by (intro divide_left_mono) simp_all
    have "1 / y < 1 / 2 powi (bitlen n - 1)"
      using ylo ypos by (intro divide_strict_left_mono mult_pos_pos) simp_all
    also have "\<dots> = 2 powi (- bitlen n + 1)"
      by (simp flip: power_int_minus_divide)
    finally have B: "x < 2 powi (- bitlen n + 1)" by (simp add: xy)
    from A B show ?thesis by (simp add: be)
  qed
  then show "2 powi bin_exp x \<le> x" and "x < 2 powi (bin_exp x + 1)" by simp_all
qed

lemma bin_exp_unique:
  assumes "2 powi e \<le> x" and "x < 2 powi (e + 1)"
  shows "bin_exp x = e"
proof -
  have xpos: "0 < x" using assms(1) pow2_pos [of e] by linarith
  note b = bin_exp_bounds [OF xpos]
  have "(2::rat) powi bin_exp x < 2 powi (e + 1)" using b(1) assms(2) by linarith
  then have 1: "bin_exp x < e + 1" by (simp only: pow2_less_iff)
  have "(2::rat) powi e < 2 powi (bin_exp x + 1)" using b(2) assms(1) by linarith
  then have 2: "e < bin_exp x + 1" by (simp only: pow2_less_iff)
  from 1 2 show ?thesis by simp
qed

lemma bin_exp_mono:
  assumes "0 < x" and "x \<le> y"
  shows "bin_exp x \<le> bin_exp y"
proof -
  have ypos: "0 < y" using assms by simp
  have "(2::rat) powi bin_exp x \<le> x" by (rule bin_exp_bounds [OF assms(1)])
  also have "\<dots> \<le> y" by fact
  also have "\<dots> < 2 powi (bin_exp y + 1)" by (rule bin_exp_bounds [OF ypos])
  finally have "bin_exp x < bin_exp y + 1" by (simp only: pow2_less_iff)
  then show ?thesis by simp
qed

lemma round_half_even_of_int [simp]: "round_half_even (of_int n) = n"
  by (simp add: round_half_even_def)

lemma round_half_even_cases:
  "round_half_even y = \<lfloor>y\<rfloor> \<and> y - of_int \<lfloor>y\<rfloor> \<le> 1 / 2
   \<or> round_half_even y = \<lfloor>y\<rfloor> + 1 \<and> 1 / 2 \<le> y - of_int \<lfloor>y\<rfloor>"
  by (auto simp: round_half_even_def Let_def)

lemma round_half_even_error: "\<bar>of_int (round_half_even y) - y\<bar> \<le> 1 / 2"
proof -
  have "of_int \<lfloor>y\<rfloor> \<le> y" "y < of_int \<lfloor>y\<rfloor> + 1" by linarith+
  with round_half_even_cases [of y] show ?thesis by auto
qed

lemma round_half_even_mono:
  assumes "x \<le> y"
  shows "round_half_even x \<le> round_half_even y"
proof (cases "\<lfloor>x\<rfloor> = \<lfloor>y\<rfloor>")
  case True
  with assms show ?thesis
    by (auto simp: round_half_even_def Let_def)
next
  case False
  with assms have "\<lfloor>x\<rfloor> < \<lfloor>y\<rfloor>" using floor_mono [OF assms] by simp
  moreover have "round_half_even x \<le> \<lfloor>x\<rfloor> + 1" using round_half_even_cases [of x] by auto
  moreover have "\<lfloor>y\<rfloor> \<le> round_half_even y" using round_half_even_cases [of y] by auto
  ultimately show ?thesis by linarith
qed

lemma round_half_even_ge: "of_int a \<le> y \<Longrightarrow> a \<le> round_half_even y"
  using round_half_even_mono [of "of_int a" y] by simp

lemma round_half_even_le: "y \<le> of_int b \<Longrightarrow> round_half_even y \<le> b"
  using round_half_even_mono [of y "of_int b"] by simp

lemma round_half_even_minus: "round_half_even (- y) = - round_half_even y"
proof (cases "y = of_int \<lfloor>y\<rfloor>")
  case True
  then obtain n where "y = of_int n" ..
  then have "- y = of_int (- n)" by simp
  then show ?thesis unfolding \<open>y = of_int n\<close> by (simp only: round_half_even_of_int)
next
  case False
  then have lt: "of_int \<lfloor>y\<rfloor> < y" by (metis of_int_floor_le order_le_less)
  have "y < of_int \<lfloor>y\<rfloor> + 1" by linarith
  with lt have fl: "\<lfloor>- y\<rfloor> = - \<lfloor>y\<rfloor> - 1"
    by (intro floor_unique) simp_all
  show ?thesis
    unfolding round_half_even_def Let_def fl
    by (auto simp: algebra_simps)
qed

lemma ulp_exp_minus [simp]: "ulp_exp (- x) = ulp_exp x"
  by (simp add: ulp_exp_def)

lemma rnd_0 [simp]: "rnd 0 = 0"
  by (simp add: rnd_def)

lemma rnd_minus: "rnd (- x) = - rnd x"
  by (simp add: rnd_def round_half_even_minus)

lemma rnd_nonneg: "0 \<le> x \<Longrightarrow> 0 \<le> rnd x"
proof -
  assume "0 \<le> x"
  then have "0 \<le> x / 2 powi ulp_exp x" by simp
  then have "0 \<le> round_half_even (x / 2 powi ulp_exp x)"
    using round_half_even_ge [of 0] by simp
  then show ?thesis by (simp add: rnd_def)
qed

lemma ulp_exp_mono: "0 < x \<Longrightarrow> x \<le> y \<Longrightarrow> ulp_exp x \<le> ulp_exp y"
  using bin_exp_mono [of x y] by (simp add: ulp_exp_def abs_of_pos)

text \<open>The scaled significand of a positive number lies below \<open>2\<^sup>5\<^sup>3\<close>.\<close>

lemma scaled_less:
  assumes "0 < x"
  shows "x / 2 powi ulp_exp x < 2 ^ 53"
proof -
  have "bin_exp x - 52 \<le> ulp_exp x" using assms by (simp add: ulp_exp_def)
  then have "bin_exp x + 1 \<le> ulp_exp x + 53" by simp
  then have "(2::rat) powi (bin_exp x + 1) \<le> 2 powi (ulp_exp x + 53)"
    by (simp only: pow2_le_iff)
  with bin_exp_bounds(2) [OF assms] have "x < 2 powi (ulp_exp x + 53)" by linarith
  also have "\<dots> = 2 powi ulp_exp x * 2 ^ 53" by (simp add: power_int_add)
  finally show ?thesis by (simp add: pos_divide_less_eq mult.commute)
qed

lemma rnd_le_pow:
  assumes "0 < x"
  shows "rnd x \<le> 2 powi (ulp_exp x + 53)"
proof -
  have "x / 2 powi ulp_exp x \<le> of_int (2 ^ 53)" using scaled_less [OF assms] by simp
  then have "round_half_even (x / 2 powi ulp_exp x) \<le> 2 ^ 53" by (rule round_half_even_le)
  then have "(of_int (round_half_even (x / 2 powi ulp_exp x)) :: rat) \<le> of_int (2 ^ 53)"
    by (simp only: of_int_le_iff)
  then have "rnd x \<le> 2 ^ 53 * 2 powi ulp_exp x"
    using assms by (simp add: rnd_def)
  then show ?thesis by (simp add: power_int_add mult.commute)
qed

lemma rnd_ge_pow:
  assumes "0 < y" and "- 1074 < ulp_exp y"
  shows "2 powi (ulp_exp y + 52) \<le> rnd y"
proof -
  have e: "ulp_exp y = bin_exp y - 52" using assms by (simp add: ulp_exp_def split: if_splits)
  have "2 powi (ulp_exp y + 52) \<le> y" using bin_exp_bounds(1) [OF assms(1)] by (simp add: e)
  then have "2 powi ulp_exp y * 2 ^ 52 \<le> y" by (simp add: power_int_add)
  then have "of_int (2 ^ 52) \<le> y / 2 powi ulp_exp y"
    by (simp add: pos_le_divide_eq mult.commute)
  then have "2 ^ 52 \<le> round_half_even (y / 2 powi ulp_exp y)" by (rule round_half_even_ge)
  then have "(of_int (2 ^ 52) :: rat) \<le> of_int (round_half_even (y / 2 powi ulp_exp y))"
    by (simp only: of_int_le_iff)
  then have "2 ^ 52 * 2 powi ulp_exp y \<le> rnd y"
    using assms by (simp add: rnd_def)
  then show ?thesis by (simp add: power_int_add mult.commute)
qed

lemma rnd_mono_pos:
  assumes "0 < x" and "x \<le> y"
  shows "rnd x \<le> rnd y"
proof (cases "ulp_exp x = ulp_exp y")
  case True
  have "x / 2 powi ulp_exp y \<le> y / 2 powi ulp_exp y"
    using assms by (simp add: divide_right_mono)
  then have "round_half_even (x / 2 powi ulp_exp y) \<le> round_half_even (y / 2 powi ulp_exp y)"
    by (rule round_half_even_mono)
  then have "(of_int (round_half_even (x / 2 powi ulp_exp y)) :: rat)
               \<le> of_int (round_half_even (y / 2 powi ulp_exp y))"
    by (simp only: of_int_le_iff)
  then show ?thesis using assms True by (simp add: rnd_def)
next
  case False
  with ulp_exp_mono [OF assms] have lt: "ulp_exp x < ulp_exp y" by simp
  have "- 1074 \<le> ulp_exp x" by (simp add: ulp_exp_def)
  with lt have big: "- 1074 < ulp_exp y" by simp
  have ypos: "0 < y" using assms by simp
  have "rnd x \<le> 2 powi (ulp_exp x + 53)" by (rule rnd_le_pow [OF assms(1)])
  also have "\<dots> \<le> 2 powi (ulp_exp y + 52)" using lt by (simp only: pow2_le_iff)
  also have "\<dots> \<le> rnd y" by (rule rnd_ge_pow [OF ypos big])
  finally show ?thesis .
qed

lemma rnd_mono:
  assumes "x \<le> y"
  shows "rnd x \<le> rnd y"
proof -
  consider (pos) "0 < x" | (mid) "x \<le> 0" "0 \<le> y" | (neg) "y < 0" by linarith
  then show ?thesis
  proof cases
    case pos
    then show ?thesis using assms by (rule rnd_mono_pos)
  next
    case mid
    have "rnd x = - rnd (- x)" by (simp add: rnd_minus)
    moreover have "0 \<le> rnd (- x)" using mid by (intro rnd_nonneg) simp
    moreover have "0 \<le> rnd y" using mid by (intro rnd_nonneg)
    ultimately show ?thesis by simp
  next
    case neg
    have "rnd (- y) \<le> rnd (- x)" using neg assms by (intro rnd_mono_pos) simp_all
    then show ?thesis by (simp add: rnd_minus)
  qed
qed

text \<open>A number with at most 53 significant bits above the subnormal grid is a double.\<close>

lemma rnd_exact_pos:
  assumes "0 < m" and "m < 2 ^ 53" and "- 1074 \<le> k"
  shows "rnd (of_int m * 2 powi k) = of_int m * 2 powi k"
proof -
  define x :: rat where "x = of_int m * 2 powi k"
  have xpos: "0 < x" using assms(1) by (simp add: x_def)
  have "(of_int m :: rat) < of_int (2 ^ 53)" using assms(2) by (simp only: of_int_less_iff)
  then have "(of_int m :: rat) < 2 ^ 53" by simp
  then have "x < 2 ^ 53 * 2 powi k"
    unfolding x_def by (intro mult_strict_right_mono) simp_all
  also have "\<dots> = 2 powi (k + 53)" by (simp add: power_int_add)
  finally have "x < 2 powi (k + 53)" .
  with bin_exp_bounds(1) [OF xpos] have "(2::rat) powi bin_exp x < 2 powi (k + 53)" by linarith
  then have "bin_exp x < k + 53" by (simp only: pow2_less_iff)
  then have "ulp_exp x \<le> k" using assms(3) xpos by (simp add: ulp_exp_def)
  define e where "e = ulp_exp x"
  have ek: "e \<le> k" using \<open>ulp_exp x \<le> k\<close> by (simp add: e_def)
  define j where "j = nat (k - e)"
  have kj: "k = e + int j" using ek by (simp add: j_def)
  have pk: "(2::rat) powi k = 2 powi e * 2 ^ j" by (subst kj) (simp add: power_int_add)
  have "x / 2 powi e = of_int m * 2 ^ j"
    by (simp add: x_def pk)
  also have "\<dots> = of_int (m * 2 ^ j)" by simp
  finally have sc: "x / 2 powi e = of_int (m * 2 ^ j)" .
  have "rnd x = of_int (round_half_even (x / 2 powi e)) * 2 powi e"
    using xpos by (simp add: rnd_def e_def)
  also have "\<dots> = (x / 2 powi e) * 2 powi e"
    unfolding sc round_half_even_of_int ..
  also have "\<dots> = x" by simp
  finally show ?thesis by (simp add: x_def)
qed

lemma rnd_exact:
  assumes "\<bar>m\<bar> < 2 ^ 53" and "- 1074 \<le> k"
  shows "rnd (of_int m * 2 powi k) = of_int m * 2 powi k"
proof -
  consider "0 < m" | "m = 0" | "m < 0" by linarith
  then show ?thesis
  proof cases
    case 1
    with assms show ?thesis by (intro rnd_exact_pos) simp_all
  next
    case 2
    then show ?thesis by simp
  next
    case 3
    with assms have "rnd (of_int (- m) * 2 powi k) = of_int (- m) * 2 powi k"
      by (intro rnd_exact_pos) simp_all
    then have "rnd (- (of_int m * 2 powi k)) = - (of_int m * 2 powi k)" by simp
    then show ?thesis by (simp only: rnd_minus neg_equal_iff_equal)
  qed
qed

lemma rnd_of_int: "\<bar>m\<bar> < 2 ^ 53 \<Longrightarrow> rnd (of_int m) = of_int m"
  using rnd_exact [of m 0] by simp

lemma rnd_half_int: "\<bar>m\<bar> < 2 ^ 53 \<Longrightarrow> rnd (of_int m / 2) = of_int m / 2"
  using rnd_exact [of m "- 1"] by (simp add: power_int_minus_divide)

lemma rnd_quarter_int: "\<bar>m\<bar> < 2 ^ 53 \<Longrightarrow> rnd (of_int m / 4) = of_int m / 4"
  using rnd_exact [of m "- 2"] by (simp add: power_int_minus_divide)

section \<open>Finite results and the constants of the source\<close>

lemma DBL_MAX_eq: "DBL_MAX = of_int (2 ^ 53 - 1) * 2 powi 971"
  by (simp add: DBL_MAX_def)

lemma rnd_DBL_MAX: "rnd DBL_MAX = DBL_MAX"
  unfolding DBL_MAX_eq by (rule rnd_exact) simp_all

lemma rnd_abs_le_DBL_MAX:
  assumes "\<bar>x\<bar> \<le> DBL_MAX"
  shows "\<bar>rnd x\<bar> \<le> DBL_MAX"
proof -
  have "rnd x \<le> rnd DBL_MAX" using assms by (intro rnd_mono) simp
  moreover have "rnd (- DBL_MAX) \<le> rnd x" using assms by (intro rnd_mono) simp
  ultimately show ?thesis by (simp add: rnd_minus rnd_DBL_MAX abs_le_iff)
qed

lemma to_double_Fin: "\<bar>x\<bar> \<le> DBL_MAX \<Longrightarrow> to_double x = Fin (rnd x)"
  using rnd_abs_le_DBL_MAX [of x] by (auto simp: to_double_def Let_def)

lemma pow2_le_DBL_MAX: "k \<le> 1000 \<Longrightarrow> (2::rat) ^ k \<le> DBL_MAX"
proof -
  assume "k \<le> 1000"
  then have "(2::rat) ^ k \<le> 2 ^ 1000" by (intro power_increasing) simp_all
  also have "\<dots> \<le> DBL_MAX" by (simp add: DBL_MAX_def)
  finally show ?thesis .
qed

lemma rnd_pow2: "rnd (2 ^ k) = 2 ^ k"
  using rnd_exact [of 1 "int k"] by simp

lemma rnd_abs_le_pow2:
  assumes "\<bar>x\<bar> \<le> 2 ^ k"
  shows "\<bar>rnd x\<bar> \<le> 2 ^ k"
proof -
  have "rnd x \<le> rnd (2 ^ k)" using assms by (intro rnd_mono) simp
  moreover have "rnd (- (2 ^ k)) \<le> rnd x" using assms by (intro rnd_mono) simp
  ultimately show ?thesis by (simp add: rnd_minus rnd_pow2 abs_le_iff)
qed

lemma rnd_half: "rnd (1 / 2) = 1 / 2"
  using rnd_half_int [of 1] by simp

lemma rnd_1: "rnd 1 = 1"
  using rnd_of_int [of 1] by simp

lemma rnd_3_half: "rnd (3 / 2) = 3 / 2"
  using rnd_half_int [of 3] by simp

lemma rnd_7_10: "rnd (7 / 10) = 6305039478318694 / 2 ^ 53"
  by code_simp

lemma rnd_13_10: "rnd (13 / 10) = 5854679515581645 / 2 ^ 52"
  by code_simp

lemma rnd_1_10: "rnd (1 / 10) = 3602879701896397 / 2 ^ 55"
  by code_simp

lemma lit_Fin: "\<bar>q\<bar> \<le> 2 \<Longrightarrow> lit q = Fin (rnd q)"
proof -
  assume "\<bar>q\<bar> \<le> 2"
  also have "(2::rat) \<le> DBL_MAX" using pow2_le_DBL_MAX [of 1] by simp
  finally show ?thesis unfolding lit_def by (rule to_double_Fin)
qed

lemma multiplier_get_cases:
  "multiplier_get c (lit 1) = Fin (1 / 2) \<and> c = 1
   \<or> multiplier_get c (lit 1) = Fin (6305039478318694 / 2 ^ 53) \<and> c = 2
   \<or> multiplier_get c (lit 1) = Fin 1 \<and> (c = 3 \<or> c \<notin> {1, 2, 3, 4, 5})
   \<or> multiplier_get c (lit 1) = Fin (5854679515581645 / 2 ^ 52) \<and> c = 4
   \<or> multiplier_get c (lit 1) = Fin (3 / 2) \<and> c = 5"
  by (simp add: multiplier_get_def confidence_multiplier_def lit_Fin rnd_half rnd_1 rnd_3_half
      rnd_7_10 rnd_13_10)

lemma multiplier_get_range:
  obtains m where "multiplier_get c (lit 1) = Fin m" and "1 / 2 \<le> m" and "m \<le> 3 / 2"
  using multiplier_get_cases [of c] by fastforce

text \<open>The literal value of the largest double, for evaluation.\<close>

lemma DBL_MAX_code [code]:
  "DBL_MAX =
     179769313486231570814527423731704356798070567525844996598917476803157260780028538760589558632766878171540458953514382464234321326889464182768467546703537516986049910576551282076245490090389328944075868508455133942304583236903222948165808559332123348274797826204144723168738177180919299881250404026184124858368"
  by (simp add: DBL_MAX_def)

section \<open>Properties of the session XP\<close>

lemma trunc_mono: "x \<le> y \<Longrightarrow> trunc x \<le> trunc y"
proof -
  assume xy: "x \<le> y"
  consider "0 \<le> x" | "x < 0" "0 \<le> y" | "y < 0" using xy by linarith
  then show ?thesis
  proof cases
    case 1
    with xy show ?thesis by (simp add: trunc_def floor_mono)
  next
    case 2
    then have "\<lceil>x\<rceil> \<le> 0" "0 \<le> \<lfloor>y\<rfloor>" by (simp_all add: ceiling_le_iff le_floor_iff)
    then have "\<lceil>x\<rceil> \<le> \<lfloor>y\<rfloor>" by (rule order_trans)
    with 2 show ?thesis by (simp add: trunc_def)
  next
    case 3
    with xy show ?thesis by (simp add: trunc_def ceiling_mono)
  qed
qed

lemma trunc_nonpos: "x \<le> 0 \<Longrightarrow> trunc x \<le> 0"
  using trunc_mono [of x 0] by (simp add: trunc_def)

lemma py_min_Fin: "py_min (Fin a) (Fin b) = Fin (min a b)"
  by (auto simp: py_min_def min_def)

lemma rnd_int_bound:
  assumes "\<bar>n\<bar> \<le> 2 ^ k"
  shows "\<bar>rnd (of_int n)\<bar> \<le> 2 ^ k"
proof -
  have "\<bar>(of_int n :: rat)\<bar> \<le> of_int (2 ^ k)"
    using assms unfolding of_int_abs [symmetric] of_int_le_iff .
  then show ?thesis by (intro rnd_abs_le_pow2) simp
qed

lemma int_to_float_Fin:
  assumes "\<bar>n\<bar> \<le> 2 ^ 64"
  shows "int_to_float n = Inr (Fin (rnd (of_int n)))"
proof -
  have "\<bar>(of_int n :: rat)\<bar> \<le> of_int (2 ^ 64)"
    using assms unfolding of_int_abs [symmetric] of_int_le_iff .
  also have "\<dots> \<le> DBL_MAX" using pow2_le_DBL_MAX [of 64] by simp
  finally show ?thesis by (simp add: int_to_float_def to_double_Fin)
qed

lemma streak_bonus_range:
  assumes "0 \<le> s"
  shows "0 \<le> rnd (rnd (of_int s) * rnd (1 / 10))"
proof -
  have "0 \<le> rnd (of_int s)" using assms by (intro rnd_nonneg) simp
  moreover have "(0::rat) \<le> rnd (1 / 10)" by (intro rnd_nonneg) simp
  ultimately have "0 \<le> rnd (of_int s) * rnd (1 / 10)" by (rule mult_nonneg_nonneg)
  then show ?thesis by (rule rnd_nonneg)
qed

lemma streak_factor_range:
  assumes "0 \<le> s"
  shows "1 \<le> streak_factor s" and "streak_factor s \<le> 3 / 2"
proof -
  let ?b = "min (1 / 2) (rnd (rnd (of_int s) * rnd (1 / 10)))"
  have b: "0 \<le> ?b" "?b \<le> 1 / 2" using streak_bonus_range [OF assms] by simp_all
  have "rnd 1 \<le> rnd (1 + ?b)" using b by (intro rnd_mono) simp
  then show "1 \<le> streak_factor s" by (simp add: streak_factor_def rnd_1)
  have "rnd (1 + ?b) \<le> rnd (3 / 2)" using b by (intro rnd_mono) simp
  then show "streak_factor s \<le> 3 / 2" by (simp add: streak_factor_def rnd_3_half)
qed

lemma streak_factor_mono:
  assumes "s \<le> s'"
  shows "streak_factor s \<le> streak_factor s'"
proof -
  have "rnd (of_int s) \<le> rnd (of_int s')" using assms by (intro rnd_mono) simp
  moreover have "(0::rat) \<le> rnd (1 / 10)" by (intro rnd_nonneg) simp
  ultimately have "rnd (of_int s) * rnd (1 / 10) \<le> rnd (of_int s') * rnd (1 / 10)"
    by (rule mult_right_mono)
  then have "rnd (rnd (of_int s) * rnd (1 / 10)) \<le> rnd (rnd (of_int s') * rnd (1 / 10))"
    by (rule rnd_mono)
  then have "min (1 / 2) (rnd (rnd (of_int s) * rnd (1 / 10)))
               \<le> min (1 / 2) (rnd (rnd (of_int s') * rnd (1 / 10)))"
    by (intro min.mono order_refl)
  then have "1 + min (1 / 2) (rnd (rnd (of_int s) * rnd (1 / 10)))
               \<le> 1 + min (1 / 2) (rnd (rnd (of_int s') * rnd (1 / 10)))"
    by (rule add_left_mono)
  then show ?thesis
    unfolding streak_factor_def by (rule rnd_mono)
qed

text \<open>
  With a duration in the 64-bit range and a streak between 0 and \<open>2\<^sup>6\<^sup>3\<close>, no step of
  \<^verbatim>\<open>calculate_session_xp\<close> overflows: the function returns.
\<close>

lemma calculate_session_xp_value:
  assumes d: "\<bar>d\<bar> \<le> 2 ^ 63" and s: "0 \<le> s" "s \<le> 2 ^ 63"
    and m: "multiplier_get c (lit 1) = Fin m" "1 / 2 \<le> m" "m \<le> 3 / 2"
  shows "calculate_session_xp d c s = Inr (session_xp_value d m s)"
proof -
  have sf: "int_to_float s = Inr (Fin (rnd (of_int s)))"
    using s by (intro int_to_float_Fin) simp
  have rs: "\<bar>rnd (of_int s)\<bar> \<le> 2 ^ 63" using s by (intro rnd_int_bound) simp
  have c01: "streak_bonus_multiplier = Fin (rnd (1 / 10))"
    by (simp add: streak_bonus_multiplier_def lit_Fin)
  have c01_le: "\<bar>rnd (1 / 10)\<bar> \<le> 1" by (simp add: rnd_1_10)
  have "\<bar>rnd (of_int s) * rnd (1 / 10)\<bar> \<le> 2 ^ 63 * 1"
    unfolding abs_mult using rs c01_le by (intro mult_mono) simp_all
  also have "\<dots> \<le> DBL_MAX" using pow2_le_DBL_MAX [of 63] by simp
  finally have sb: "to_double (rnd (of_int s) * rnd (1 / 10))
                      = Fin (rnd (rnd (of_int s) * rnd (1 / 10)))"
    by (rule to_double_Fin)
  let ?b = "min (1 / 2) (rnd (rnd (of_int s) * rnd (1 / 10)))"
  have half: "lit (1 / 2) = Fin (1 / 2)" by (simp add: lit_Fin rnd_half)
  have b: "0 \<le> ?b" "?b \<le> 1 / 2" using streak_bonus_range [OF s(1)] by simp_all
  have "\<bar>1 + ?b\<bar> \<le> 2 ^ 1" using b by simp
  also have "\<dots> \<le> DBL_MAX" by (rule pow2_le_DBL_MAX) simp
  finally have t: "to_double (1 + ?b) = Fin (streak_factor s)"
    by (simp add: to_double_Fin streak_factor_def)
  have d2: "\<bar>d * 2\<bar> \<le> 2 ^ 64" using d by simp
  have bf: "int_to_float (d * 2) = Inr (Fin (rnd (of_int (d * 2))))"
    using d2 by (rule int_to_float_Fin)
  have rb: "\<bar>rnd (of_int (d * 2))\<bar> \<le> 2 ^ 64" using d2 by (rule rnd_int_bound)
  have mabs: "\<bar>m\<bar> \<le> 2" using m(2,3) by simp
  have bm: "\<bar>rnd (of_int (d * 2)) * m\<bar> \<le> 2 ^ 64 * 2"
    unfolding abs_mult using rb mabs by (intro mult_mono) simp_all
  then have bm': "\<bar>rnd (of_int (d * 2)) * m\<bar> \<le> 2 ^ 65" by simp
  also have "\<dots> \<le> DBL_MAX" by (rule pow2_le_DBL_MAX) simp
  finally have p1: "to_double (rnd (of_int (d * 2)) * m)
                      = Fin (rnd (rnd (of_int (d * 2)) * m))"
    by (rule to_double_Fin)
  have rp1: "\<bar>rnd (rnd (of_int (d * 2)) * m)\<bar> \<le> 2 ^ 65" using bm' by (rule rnd_abs_le_pow2)
  have tabs: "\<bar>streak_factor s\<bar> \<le> 2" using streak_factor_range [OF s(1)] by simp
  have "\<bar>rnd (rnd (of_int (d * 2)) * m) * streak_factor s\<bar> \<le> 2 ^ 65 * 2"
    unfolding abs_mult using rp1 tabs by (intro mult_mono) simp_all
  also have "\<dots> = 2 ^ 66" by simp
  also have "\<dots> \<le> DBL_MAX" by (rule pow2_le_DBL_MAX) simp
  finally have p2: "to_double (rnd (rnd (of_int (d * 2)) * m) * streak_factor s)
                      = Fin (rnd (rnd (rnd (of_int (d * 2)) * m) * streak_factor s))"
    by (rule to_double_Fin)
  show ?thesis
    unfolding calculate_session_xp_def Let_def base_xp_per_minute_def
    by (simp add: sf bf m(1) c01 half py_min_Fin sb t p1 p2 session_xp_value_def
        del: of_int_mult)
qed

lemma session_xp_value_ge_5: "5 \<le> session_xp_value d m s"
  by (simp add: session_xp_value_def)

lemma session_xp_value_mono:
  assumes "0 \<le> s" and "s \<le> s'"
  shows "session_xp_value d m s \<le> session_xp_value d m s'"
proof (cases "0 \<le> rnd (rnd (of_int (d * 2)) * m)")
  case True
  then have "rnd (rnd (of_int (d * 2)) * m) * streak_factor s
               \<le> rnd (rnd (of_int (d * 2)) * m) * streak_factor s'"
    using streak_factor_mono [OF assms(2)] by (intro mult_left_mono)
  then have "trunc (rnd (rnd (rnd (of_int (d * 2)) * m) * streak_factor s))
               \<le> trunc (rnd (rnd (rnd (of_int (d * 2)) * m) * streak_factor s'))"
    by (intro trunc_mono rnd_mono)
  then show ?thesis
    unfolding session_xp_value_def by (intro max.mono order_refl)
next
  case False
  have "0 \<le> streak_factor s" using streak_factor_range(1) [OF assms(1)] by simp
  with False have "rnd (rnd (of_int (d * 2)) * m) * streak_factor s \<le> 0"
    by (simp add: mult_le_0_iff)
  then have "rnd (rnd (rnd (of_int (d * 2)) * m) * streak_factor s) \<le> 0"
    using rnd_mono [of _ 0] by simp
  then have "trunc (rnd (rnd (rnd (of_int (d * 2)) * m) * streak_factor s)) \<le> 0"
    by (rule trunc_nonpos)
  then have "session_xp_value d m s = 5" by (simp add: session_xp_value_def)
  then show ?thesis using session_xp_value_ge_5 [of d m s'] by simp
qed

section \<open>Total XP under appended sessions\<close>

lemma streak_for_date_loop_eq:
  "streak_for_date_loop cur rest n = streak_loop (cur - 1) rest n"
  by (induction rest arbitrary: cur n) simp_all

lemma streak_loop_le: "streak_loop cur ds n \<le> n + length ds"
proof (induction ds arbitrary: cur n)
  case Nil
  show ?case by simp
next
  case (Cons d ds)
  show ?case using Cons [of "cur - 1" "Suc n"] by simp
qed

lemma run_back_unique_le:
  assumes "D \<subseteq> D'" and "run_back D t k" and "run_back D' t k'"
  shows "k \<le> k'"
proof (rule ccontr)
  assume "\<not> k \<le> k'"
  then have "k' < k" by simp
  with assms(2) have "t - int k' \<in> D" by (simp add: run_back_def)
  with assms(1) have "t - int k' \<in> D'" by blast
  with assms(3) show False by (simp add: run_back_def)
qed

lemma run_back_restrict:
  "run_back {d \<in> D. d \<le> t} t k \<longleftrightarrow> run_back D t k"
  by (auto simp: run_back_def)

lemma calculate_streak_for_date_run_back:
  "run_back (date ` set user_data) t (calculate_streak_for_date user_data t)"
proof -
  define col where "col = map date (filter (\<lambda>s. date s \<le> t) user_data)"
  define ds where "ds = rev (sort (remdups col))"
  have set_ds: "set ds = {d \<in> date ` set user_data. d \<le> t}"
    by (auto simp: ds_def col_def)
  have le: "\<forall>d\<in>set ds. d \<le> t" by (simp add: set_ds)
  have srt: "sorted (rev ds)" "distinct ds" by (simp_all add: ds_def)
  from streak_loop_run_back [OF srt le, of 0]
  have rb: "run_back (date ` set user_data) t (streak_loop t ds 0)"
    by (auto simp: set_ds run_back_restrict)
  have res: "calculate_streak_for_date user_data t =
          (if ds = [] \<or> hd ds \<noteq> t then 0 else streak_for_date_loop (hd ds) (tl ds) 1)"
    by (simp add: calculate_streak_for_date_def ds_def col_def)
  show ?thesis
  proof (cases "ds = [] \<or> hd ds \<noteq> t")
    case True
    then have "streak_loop t ds 0 = 0" by (cases ds) auto
    with rb res True show ?thesis by simp
  next
    case False
    then obtain rest where "ds = t # rest" by (cases ds) auto
    then have "streak_for_date_loop (hd ds) (tl ds) 1 = streak_loop t ds 0"
      by (simp add: streak_for_date_loop_eq)
    with rb res False show ?thesis by simp
  qed
qed

lemma calculate_streak_for_date_append:
  "calculate_streak_for_date user_data t \<le> calculate_streak_for_date (user_data @ new_rows) t"
  by (rule run_back_unique_le [OF _ calculate_streak_for_date_run_back
        calculate_streak_for_date_run_back]) auto

lemma calculate_streak_for_date_le_length:
  "calculate_streak_for_date user_data t \<le> length user_data"
proof -
  define col where "col = map date (filter (\<lambda>s. date s \<le> t) user_data)"
  define ds where "ds = rev (sort (remdups col))"
  have "length ds \<le> length col" by (simp add: ds_def)
  also have "\<dots> \<le> length user_data" by (simp add: col_def)
  finally have len: "length ds \<le> length user_data" .
  have res: "calculate_streak_for_date user_data t =
          (if ds = [] \<or> hd ds \<noteq> t then 0 else streak_for_date_loop (hd ds) (tl ds) 1)"
    by (simp add: calculate_streak_for_date_def ds_def col_def)
  show ?thesis
  proof (cases "ds = [] \<or> hd ds \<noteq> t")
    case True
    with res show ?thesis by simp
  next
    case False
    then obtain rest where ds: "ds = t # rest" by (cases ds) auto
    have "streak_for_date_loop t rest 1 \<le> 1 + length rest"
      unfolding streak_for_date_loop_eq by (rule streak_loop_le)
    with res False ds len show ?thesis by simp
  qed
qed

lemma multiplier_value_range:
  "multiplier_get c (lit 1) = Fin (multiplier_value c)"
  "1 / 2 \<le> multiplier_value c" "multiplier_value c \<le> 3 / 2"
proof -
  obtain m where m: "multiplier_get c (lit 1) = Fin m" "1 / 2 \<le> m" "m \<le> 3 / 2"
    by (rule multiplier_get_range)
  then have "multiplier_value c = m" by (simp add: multiplier_value_def)
  with m show "multiplier_get c (lit 1) = Fin (multiplier_value c)"
    "1 / 2 \<le> multiplier_value c" "multiplier_value c \<le> 3 / 2" by simp_all
qed

lemma row_xp_returned:
  assumes "int64_table user_data" and "int64 (duration_minutes s)"
  shows "calculate_session_xp (duration_minutes s) (confidence_rating s)
           (int (calculate_streak_for_date user_data (date s))) = Inr (row_xp user_data s)"
proof -
  have "int (calculate_streak_for_date user_data (date s)) \<le> int (length user_data)"
    using calculate_streak_for_date_le_length [of user_data "date s"] by simp
  also have "\<dots> \<le> 2 ^ 63" using assms(1) by (simp add: int64_table_def int64_def)
  finally have s: "int (calculate_streak_for_date user_data (date s)) \<le> 2 ^ 63" .
  have d: "\<bar>duration_minutes s\<bar> \<le> 2 ^ 63" using assms(2) unfolding int64_def by linarith
  show ?thesis
    unfolding row_xp_def
    by (rule calculate_session_xp_value [OF d _ s multiplier_value_range]) simp
qed

lemma total_xp_loop_sum:
  assumes "int64_table user_data" and "list_all (\<lambda>s. int64 (duration_minutes s)) rows"
  shows "total_xp_loop user_data rows acc = Inr (acc + sum_list (map (row_xp user_data) rows))"
  using assms(2)
proof (induction rows arbitrary: acc)
  case Nil
  show ?case by simp
next
  case (Cons s rows)
  then have "int64 (duration_minutes s)" by simp
  from row_xp_returned [OF assms(1) this] Cons show ?case
    by (simp add: Let_def add.assoc)
qed

lemma calculate_total_xp_sum:
  assumes "int64_table user_data"
  shows "calculate_total_xp user_data = Inr (sum_list (map (row_xp user_data) user_data))"
proof -
  have "list_all (\<lambda>s. int64 (duration_minutes s)) user_data"
    using assms by (simp add: int64_table_def)
  from total_xp_loop_sum [OF assms this, of 0] show ?thesis
    by (simp add: calculate_total_xp_def)
qed

lemma row_xp_append: "row_xp user_data s \<le> row_xp (user_data @ new_rows) s"
  unfolding row_xp_def
  by (intro session_xp_value_mono) (simp_all add: calculate_streak_for_date_append)

lemma row_xp_ge_5: "5 \<le> row_xp user_data s"
  by (simp add: row_xp_def session_xp_value_ge_5)

lemma int64_table_prefix: "int64_table (user_data @ new_rows) \<Longrightarrow> int64_table user_data"
  by (auto simp: int64_table_def int64_def)

lemma total_append:
  "sum_list (map (row_xp user_data) user_data) + 5 * int (length new_rows)
     \<le> sum_list (map (row_xp (user_data @ new_rows)) (user_data @ new_rows))"
proof -
  have "sum_list (map (row_xp user_data) user_data)
          \<le> sum_list (map (row_xp (user_data @ new_rows)) user_data)"
    by (intro sum_list_mono row_xp_append)
  moreover have "5 * int (length new_rows) \<le> sum_list (map (row_xp (user_data @ new_rows)) new_rows)"
  proof -
    have "sum_list (map (\<lambda>s. 5) new_rows) \<le> sum_list (map (row_xp (user_data @ new_rows)) new_rows)"
      by (intro sum_list_mono row_xp_ge_5)
    then show ?thesis by (simp add: sum_list_triv)
  qed
  ultimately show ?thesis by simp
qed

text \<open>
  C3. For every session table \<open>user_data\<close> and all rows \<open>new_rows\<close> appended to it (one
  session, or any sequence of appended sessions), within what a pandas table can hold:
  both totals are returned, the total XP of the extended table is at least that of the
  original, so is the level, and the streak as of any date never drops.
\<close>

theorem total_xp_append_mono:
  assumes "int64_table (user_data @ new_rows)"
  shows "\<exists>a b. calculate_total_xp user_data = Inr a
           \<and> calculate_total_xp (user_data @ new_rows) = Inr b
           \<and> a \<le> b \<and> get_level a \<le> get_level b
           \<and> (\<forall>t. calculate_streak_for_date user_data t
                    \<le> calculate_streak_for_date (user_data @ new_rows) t)"
proof -
  let ?a = "sum_list (map (row_xp user_data) user_data)"
  let ?b = "sum_list (map (row_xp (user_data @ new_rows)) (user_data @ new_rows))"
  have a: "calculate_total_xp user_data = Inr ?a"
    by (rule calculate_total_xp_sum [OF int64_table_prefix [OF assms]])
  have b: "calculate_total_xp (user_data @ new_rows) = Inr ?b"
    by (rule calculate_total_xp_sum [OF assms])
  have ab: "?a \<le> ?b" using total_append [of user_data new_rows] by linarith
  from a b ab get_level_mono [OF ab] calculate_streak_for_date_append show ?thesis
    by blast
qed

theorem total_xp_append_mono_witness:
  "int64_table
     ([\<lparr>date = 4, subject = ''Maths'', chapter_name = ''Algebra'', duration_minutes = 45,
        confidence_rating = 2, notes_text = [], timestamp = []\<rparr>]
      @ [\<lparr>date = 3, subject = ''Maths'', chapter_name = ''Algebra'', duration_minutes = 30,
          confidence_rating = 3, notes_text = [], timestamp = []\<rparr>])
   \<and> (\<exists>a b.
        calculate_total_xp
          [\<lparr>date = 4, subject = ''Maths'', chapter_name = ''Algebra'', duration_minutes = 45,
            confidence_rating = 2, notes_text = [], timestamp = []\<rparr>] = Inr a
        \<and> calculate_total_xp
            ([\<lparr>date = 4, subject = ''Maths'', chapter_name = ''Algebra'', duration_minutes = 45,
               confidence_rating = 2, notes_text = [], timestamp = []\<rparr>]
             @ [\<lparr>date = 3, subject = ''Maths'', chapter_name = ''Algebra'',
                 duration_minutes = 30, confidence_rating = 3, notes_text = [],
                 timestamp = []\<rparr>]) = Inr b
        \<and> a \<le> b \<and> get_level a \<le> get_level b)"
proof -
  let ?old = "[\<lparr>date = 4, subject = ''Maths'', chapter_name = ''Algebra'', duration_minutes = 45,
                confidence_rating = 2, notes_text = [], timestamp = []\<rparr>]"
  let ?new = "[\<lparr>date = 3, subject = ''Maths'', chapter_name = ''Algebra'', duration_minutes = 30,
                confidence_rating = 3, notes_text = [], timestamp = []\<rparr>]"
  have h: "int64_table (?old @ ?new)" by (simp add: int64_table_def int64_def)
  from total_xp_append_mono [OF h] h show ?thesis by blast
qed

section \<open>Properties of the level progress\<close>

lemma band_facts:
  assumes "1 \<le> cl" and "cl < 21"
  shows "0 < band_width cl" and "0 \<le> band_lower cl" and "band_lower cl \<le> 15300"
proof -
  have all: "\<forall>c\<in>set [1..<21]. 0 < band_width c \<and> 0 \<le> band_lower c \<and> band_lower c \<le> 15300"
    by code_simp
  have "cl \<in> set [1..<21]" using assms by simp
  with all have "0 < band_width cl \<and> 0 \<le> band_lower cl \<and> band_lower cl \<le> 15300"
    by blast
  then show "0 < band_width cl" and "0 \<le> band_lower cl" and "band_lower cl \<le> 15300"
    by simp_all
qed

lemma get_level_ge_1: "1 \<le> get_level a"
  by (simp add: get_level_max_count)

lemma get_level_below_max: "a < 15300 \<Longrightarrow> get_level a < 21"
proof -
  assume "a < 15300"
  then have "get_level a \<le> get_level 15299" by (intro get_level_mono) simp
  also have "get_level 15299 = 20"
    by (simp add: get_level_def get_level_of_def level_thresholds_def)
  finally show ?thesis by simp
qed

lemma rnd_100: "rnd 100 = 100"
  using rnd_of_int [of 100] by simp

lemma progress_value_mono:
  assumes "x \<le> y" and "0 < r"
  shows "progress_value x r \<le> progress_value y r"
proof -
  have "(of_int x :: rat) / of_int r \<le> of_int y / of_int r"
    using assms by (intro divide_right_mono) simp_all
  then have "rnd (of_int x / of_int r) \<le> rnd (of_int y / of_int r)"
    by (rule rnd_mono)
  then have "rnd (of_int x / of_int r) * 100 \<le> rnd (of_int y / of_int r) * 100"
    by (rule mult_right_mono) simp
  then have "rnd (rnd (of_int x / of_int r) * 100) \<le> rnd (rnd (of_int y / of_int r) * 100)"
    by (rule rnd_mono)
  then have "rnd (rnd (of_int x / of_int r) * 100) * 10 \<le> rnd (rnd (of_int y / of_int r) * 100) * 10"
    by (rule mult_right_mono) simp
  then have "round_half_even (rnd (rnd (of_int x / of_int r) * 100) * 10)
               \<le> round_half_even (rnd (rnd (of_int y / of_int r) * 100) * 10)"
    by (rule round_half_even_mono)
  then have "(of_int (round_half_even (rnd (rnd (of_int x / of_int r) * 100) * 10)) :: rat) / 10
               \<le> of_int (round_half_even (rnd (rnd (of_int y / of_int r) * 100) * 10)) / 10"
    by (intro divide_right_mono) simp_all
  then show ?thesis unfolding progress_value_def by (rule rnd_mono)
qed

lemma round_half_even_abs_le:
  assumes "\<bar>y\<bar> \<le> of_int n"
  shows "\<bar>round_half_even y\<bar> \<le> n"
proof -
  have "round_half_even y \<le> n" using assms by (intro round_half_even_le) simp
  moreover have "- n \<le> round_half_even y" using assms by (intro round_half_even_ge) simp
  ultimately show ?thesis by simp
qed

text \<open>
  Below the maximum level and with a total between \<open>-2\<^sup>2\<^sup>0\<close> and \<open>2\<^sup>2\<^sup>0\<close>, no step of
  \<^verbatim>\<open>get_level_progress\<close> raises.
\<close>

lemma get_level_progress_value:
  assumes cl: "get_level a < 21" and a: "\<bar>a\<bar> \<le> 2 ^ 20"
  shows "get_level_progress a =
           Inr \<lparr>current_level = get_level a,
                progress = Fin (progress_value (a - band_lower (get_level a))
                                  (band_width (get_level a))),
                xp_to_next = level_thresholds ! get_level a - a,
                current_xp = Some (a - band_lower (get_level a)),
                required_xp = Some (band_width (get_level a))\<rparr>"
proof -
  define c where "c = get_level a"
  define x where "x = a - band_lower c"
  define r where "r = band_width c"
  have c1: "1 \<le> c" "c < 21" using cl get_level_ge_1 [of a] by (simp_all add: c_def)
  note bf = band_facts [OF c1]
  have rpos: "0 < r" using bf by (simp add: r_def)
  have xabs: "\<bar>x\<bar> \<le> 2 ^ 21" using a bf by (simp add: x_def)
  have r1: "(1::rat) \<le> of_int r" using rpos by (simp add: int_one_le_iff_zero_less)
  have "\<bar>(of_int x :: rat) / of_int r\<bar> \<le> \<bar>of_int x\<bar> / 1"
    unfolding abs_divide using r1 by (intro frac_le) simp_all
  also have "\<dots> = of_int \<bar>x\<bar>" by simp
  also have "\<dots> \<le> of_int (2 ^ 21)" using xabs by (simp only: of_int_le_iff)
  finally have q: "\<bar>(of_int x :: rat) / of_int r\<bar> \<le> 2 ^ 21" by simp
  have "(2::rat) ^ 21 \<le> DBL_MAX" by (rule pow2_le_DBL_MAX) simp
  with q have qd: "to_double (of_int x / of_int r) = Fin (rnd (of_int x / of_int r))"
    by (intro to_double_Fin) simp
  have rq: "\<bar>rnd (of_int x / of_int r)\<bar> \<le> 2 ^ 21" using q by (rule rnd_abs_le_pow2)
  have "\<bar>rnd (of_int x / of_int r) * 100\<bar> \<le> 2 ^ 21 * 2 ^ 7"
    unfolding abs_mult using rq by (intro mult_mono) simp_all
  then have p: "\<bar>rnd (of_int x / of_int r) * 100\<bar> \<le> 2 ^ 28" by simp
  have "(2::rat) ^ 28 \<le> DBL_MAX" by (rule pow2_le_DBL_MAX) simp
  with p have pd: "to_double (rnd (of_int x / of_int r) * 100)
                     = Fin (rnd (rnd (of_int x / of_int r) * 100))"
    by (intro to_double_Fin) simp
  have rp: "\<bar>rnd (rnd (of_int x / of_int r) * 100)\<bar> \<le> 2 ^ 28" using p by (rule rnd_abs_le_pow2)
  have "\<bar>rnd (rnd (of_int x / of_int r) * 100) * 10\<bar> \<le> 2 ^ 28 * 2 ^ 4"
    unfolding abs_mult using rp by (intro mult_mono) simp_all
  then have "\<bar>rnd (rnd (of_int x / of_int r) * 100) * 10\<bar> \<le> of_int (2 ^ 32)" by simp
  then have "\<bar>round_half_even (rnd (rnd (of_int x / of_int r) * 100) * 10)\<bar> \<le> 2 ^ 32"
    by (rule round_half_even_abs_le)
  then have "\<bar>(of_int (round_half_even (rnd (rnd (of_int x / of_int r) * 100) * 10)) :: rat)\<bar>
               \<le> of_int (2 ^ 32)"
    unfolding of_int_abs [symmetric] of_int_le_iff .
  then have "\<bar>(of_int (round_half_even (rnd (rnd (of_int x / of_int r) * 100) * 10)) :: rat) / 10\<bar>
               \<le> 2 ^ 32"
    by simp
  also have "(2::rat) ^ 32 \<le> DBL_MAX" by (rule pow2_le_DBL_MAX) simp
  finally have rd: "to_double (of_int (round_half_even (rnd (rnd (of_int x / of_int r) * 100) * 10)) / 10)
                      = Fin (progress_value x r)"
    unfolding progress_value_def by (rule to_double_Fin)
  have rne: "r \<noteq> 0" using rpos by simp
  have len: "\<not> length level_thresholds \<le> c" using c1 by (simp add: length_level_thresholds)
  have ct: "(if 1 < c then level_thresholds ! (c - 1) else 0) = band_lower c"
    by (simp add: band_lower_def)
  have "get_level_progress a =
          Inr \<lparr>current_level = c, progress = Fin (progress_value x r),
               xp_to_next = level_thresholds ! c - a,
               current_xp = Some x, required_xp = Some r\<rparr>"
    unfolding get_level_progress_def Let_def c_def [symmetric] ct
    unfolding band_width_def [symmetric] r_def [symmetric] x_def [symmetric]
    using len rne by (simp add: int_truediv_def qd pd rd)
  then show ?thesis by (simp add: c_def x_def r_def)
qed

lemma threshold_levels:
  assumes "k < 20"
  shows "get_level (level_thresholds ! k) = Suc k"
    and "band_lower (Suc k) = level_thresholds ! k"
    and "0 \<le> level_thresholds ! k" and "level_thresholds ! k < 15300"
proof -
  have all: "\<forall>k\<in>set [0..<20]. get_level (level_thresholds ! k) = Suc k
               \<and> band_lower (Suc k) = level_thresholds ! k
               \<and> 0 \<le> level_thresholds ! k \<and> level_thresholds ! k < 15300"
    by code_simp
  have "k \<in> set [0..<20]" using assms by simp
  with all show "get_level (level_thresholds ! k) = Suc k"
    and "band_lower (Suc k) = level_thresholds ! k"
    and "0 \<le> level_thresholds ! k" and "level_thresholds ! k < 15300"
    by blast+
qed

lemma progress_value_0: "progress_value 0 r = 0"
  by (simp add: progress_value_def round_half_even_def)

text \<open>
  C7 as stated fails in the band of level 20 (13600 to 15300 XP): one XP is 1/17 of a
  percentage point there, and the percentage is rounded to one decimal, so 13601 and
  13602 XP both show 0.1.
\<close>

theorem level_progress_counterexample:
  "get_level 13601 = 20 \<and> get_level 13602 = 20
   \<and> map_sum id progress (get_level_progress 13601) = Inr (Fin (3602879701896397 / 2 ^ 55))
   \<and> map_sum id progress (get_level_progress 13602) = Inr (Fin (3602879701896397 / 2 ^ 55))"
proof -
  have l1: "get_level 13601 = 20" and l2: "get_level 13602 = 20"
    by (simp_all add: get_level_def get_level_of_def level_thresholds_def)
  have b: "band_lower 20 = 13600" "band_width 20 = 1700"
    by (simp_all add: band_lower_def band_width_def level_thresholds_def)
  have v: "progress_value 1 1700 = 3602879701896397 / 2 ^ 55"
    "progress_value 2 1700 = 3602879701896397 / 2 ^ 55"
    by code_simp+
  have "get_level_progress 13601 = Inr \<lparr>current_level = 20,
          progress = Fin (3602879701896397 / 2 ^ 55), xp_to_next = level_thresholds ! 20 - 13601,
          current_xp = Some 1, required_xp = Some 1700\<rparr>"
    using get_level_progress_value [of 13601] by (simp add: l1 b v)
  moreover have "get_level_progress 13602 = Inr \<lparr>current_level = 20,
          progress = Fin (3602879701896397 / 2 ^ 55), xp_to_next = level_thresholds ! 20 - 13602,
          current_xp = Some 2, required_xp = Some 1700\<rparr>"
    using get_level_progress_value [of 13602] by (simp add: l2 b v)
  ultimately show ?thesis using l1 l2 by simp
qed

section \<open>Session XP against the formula of the specification\<close>

lemma bin_exp_pow2: "bin_exp (2 powi e) = e"
  by (rule bin_exp_unique) (simp_all add: pow2_less_iff)

text \<open>The relative error of one rounding in the normal range is at most \<open>2\<^sup>-\<^sup>5\<^sup>3\<close>.\<close>

lemma rnd_rel_error:
  assumes "2 powi (- 1022) \<le> x"
  shows "x * (1 - 1 / 2 ^ 53) \<le> rnd x" and "rnd x \<le> x * (1 + 1 / 2 ^ 53)"
proof -
  have xpos: "0 < x" using assms pow2_pos [of "- 1022"] by linarith
  have "bin_exp (2 powi (- 1022)) \<le> bin_exp x"
    using assms by (intro bin_exp_mono) simp_all
  then have be: "- 1022 \<le> bin_exp x" by (simp only: bin_exp_pow2)
  define e where "e = ulp_exp x"
  have e: "e = bin_exp x - 52" using be xpos by (simp add: e_def ulp_exp_def)
  define y where "y = x / 2 powi e"
  have rx: "rnd x = of_int (round_half_even y) * 2 powi e"
    using xpos by (simp add: rnd_def e_def y_def)
  have x: "x = y * 2 powi e" by (simp add: y_def)
  have "\<bar>rnd x - x\<bar> = \<bar>of_int (round_half_even y) - y\<bar> * 2 powi e"
    by (subst x, subst rx) (simp add: abs_mult flip: left_diff_distrib)
  also have "\<dots> \<le> 1 / 2 * 2 powi e"
    by (intro mult_right_mono round_half_even_error) simp
  also have "\<dots> = 2 powi bin_exp x * (1 / 2 ^ 53)"
    by (simp add: e power_int_diff)
  also have "\<dots> \<le> x * (1 / 2 ^ 53)"
    by (intro mult_right_mono bin_exp_bounds(1) [OF xpos]) simp
  finally have "\<bar>rnd x - x\<bar> \<le> x * (1 / 2 ^ 53)" .
  then have "rnd x - x \<le> x * (1 / 2 ^ 53)" and "x - rnd x \<le> x * (1 / 2 ^ 53)"
    by (simp_all only: abs_le_iff minus_diff_eq)
  then show "x * (1 - 1 / 2 ^ 53) \<le> rnd x" and "rnd x \<le> x * (1 + 1 / 2 ^ 53)"
    by (simp_all only: right_diff_distrib distrib_left mult_1_right)
qed

lemma multiplier_value_error:
  "multiplier_spec c * (1 - 1 / 2 ^ 53) \<le> multiplier_value c"
  "multiplier_value c \<le> multiplier_spec c * (1 + 1 / 2 ^ 53)"
  using multiplier_get_cases [of c]
  by (auto simp: multiplier_value_def multiplier_spec_def)

lemma multiplier_spec_tenths:
  obtains a :: int where "multiplier_spec c = of_int a / 10" and "0 < a" and "a \<le> 15"
proof -
  have "multiplier_spec c = of_int (if c = 1 then 5 else if c = 2 then 7 else if c = 3 then 10
          else if c = 4 then 13 else if c = 5 then 15 else 10) / 10"
    by (simp add: multiplier_spec_def)
  then show ?thesis by (rule that) (simp_all)
qed

lemma streak_factor_small:
  "streak_factor 0 = 1"
  "11 / 10 * (1 - 1 / 2 ^ 53) \<le> streak_factor 1 \<and> streak_factor 1 \<le> 11 / 10 * (1 + 1 / 2 ^ 53)"
  "12 / 10 * (1 - 1 / 2 ^ 53) \<le> streak_factor 2 \<and> streak_factor 2 \<le> 12 / 10 * (1 + 1 / 2 ^ 53)"
  "13 / 10 * (1 - 1 / 2 ^ 53) \<le> streak_factor 3 \<and> streak_factor 3 \<le> 13 / 10 * (1 + 1 / 2 ^ 53)"
  "14 / 10 * (1 - 1 / 2 ^ 53) \<le> streak_factor 4 \<and> streak_factor 4 \<le> 14 / 10 * (1 + 1 / 2 ^ 53)"
  "streak_factor 5 = 3 / 2"
  by code_simp+


lemma streak_factor_ge_5: "5 \<le> s \<Longrightarrow> streak_factor s = 3 / 2"
proof -
  assume "5 \<le> s"
  then have "streak_factor 5 \<le> streak_factor s" by (rule streak_factor_mono)
  moreover have "streak_factor s \<le> 3 / 2" using \<open>5 \<le> s\<close> by (intro streak_factor_range) simp
  ultimately show ?thesis by (simp add: streak_factor_small)
qed

lemma streak_factor_error:
  assumes "0 \<le> s"
  shows "(1 + min (1 / 2) (of_int s * (1 / 10))) * (1 - 1 / 2 ^ 53) \<le> streak_factor s"
    and "streak_factor s \<le> (1 + min (1 / 2) (of_int s * (1 / 10))) * (1 + 1 / 2 ^ 53)"
proof -
  consider "s = 0" | "s = 1" | "s = 2" | "s = 3" | "s = 4" | "5 \<le> s"
    using assms by linarith
  then have "(1 + min (1 / 2) (of_int s * (1 / 10))) * (1 - 1 / 2 ^ 53) \<le> streak_factor s
      \<and> streak_factor s \<le> (1 + min (1 / 2) (of_int s * (1 / 10))) * (1 + 1 / 2 ^ 53)"
  proof cases
    case 6
    then have "(1::rat) / 2 \<le> of_int s * (1 / 10)" by simp
    then have "min (1 / 2) (of_int s * (1 / 10) :: rat) = 1 / 2" by (simp add: min_def)
    then show ?thesis by (simp add: streak_factor_ge_5 [OF 6])
  qed (use streak_factor_small in simp_all)
  then show "(1 + min (1 / 2) (of_int s * (1 / 10))) * (1 - 1 / 2 ^ 53) \<le> streak_factor s"
    and "streak_factor s \<le> (1 + min (1 / 2) (of_int s * (1 / 10))) * (1 + 1 / 2 ^ 53)"
    by simp_all
qed

lemma streak_exact_tenths:
  assumes "0 \<le> s"
  obtains b :: int where "1 + min (1 / 2) (of_int s * (1 / 10) :: rat) = of_int b / 10"
    and "10 \<le> b" and "b \<le> 15"
proof -
  have "1 + min (1 / 2) (of_int s * (1 / 10) :: rat) = of_int (10 + min 5 s) / 10"
    by (simp add: min_def)
  moreover have "10 \<le> 10 + min 5 s" "10 + min 5 s \<le> 15" using assms by simp_all
  ultimately show ?thesis by (rule that)
qed

text \<open>
  An exact value \<open>E\<close> that is a multiple of 1/50, and a computed value within 1/50 of it:
  the floors agree or the computed one is one less.
\<close>

lemma floor_near:
  fixes P E :: rat
  assumes "\<bar>P - E\<bar> < 1 / 50" and "50 * E = of_int n"
  shows "\<lfloor>P\<rfloor> = \<lfloor>E\<rfloor> \<or> \<lfloor>P\<rfloor> = \<lfloor>E\<rfloor> - 1"
proof -
  define N where "N = \<lfloor>E\<rfloor>"
  have N: "of_int N \<le> E" "E < of_int N + 1" unfolding N_def by linarith+
  have E: "E = of_int n / 50" using assms(2) by simp
  have d: "P - E < 1 / 50" "E - P < 1 / 50" using assms(1) by linarith+
  have "(of_int (50 * N) :: rat) \<le> of_int n" using N(1) by (simp add: E)
  then have lo: "50 * N \<le> n" by (simp only: of_int_le_iff)
  show ?thesis
  proof (cases "n = 50 * N")
    case True
    then have "E = of_int N" by (simp add: E)
    with d have "of_int (N - 1) \<le> P" "P < of_int N + 1" by simp_all
    then have "N - 1 \<le> \<lfloor>P\<rfloor>" "\<lfloor>P\<rfloor> < N + 1"
      unfolding le_floor_iff floor_less_iff by simp_all
    then show ?thesis unfolding N_def [symmetric] by linarith
  next
    case False
    with lo have "50 * N + 1 \<le> n" by simp
    then have "(of_int (50 * N + 1) :: rat) \<le> of_int n" by (simp only: of_int_le_iff)
    then have "of_int N + 1 / 50 \<le> E" by (simp add: E)
    moreover have "(of_int n :: rat) < of_int (50 * N + 50)" using N(2) by (simp add: E)
    then have "n < 50 * N + 50" by (simp only: of_int_less_iff)
    then have "n \<le> 50 * N + 49" by simp
    then have "(of_int n :: rat) \<le> of_int (50 * N + 49)" by (simp only: of_int_le_iff)
    then have "E \<le> of_int N + 49 / 50" by (simp add: E)
    ultimately have "of_int N \<le> P" "P < of_int N + 1" using d by linarith+
    then have "\<lfloor>P\<rfloor> = N" by (intro floor_unique)
    then show ?thesis by (simp add: N_def)
  qed
qed


lemma multiplier_spec_range: "1 / 2 \<le> multiplier_spec c" "multiplier_spec c \<le> 3 / 2"
  by (simp_all add: multiplier_spec_def)

text \<open>
  For a positive duration up to \<open>2\<^sup>4\<^sup>0\<close> minutes the computed product is within 1/50 of
  the exact one: four roundings (two constants, two products), each with relative error
  at most \<open>2\<^sup>-\<^sup>5\<^sup>3\<close>, on a value below \<open>2\<^sup>4\<^sup>3\<close>.
\<close>

lemma session_product_near:
  assumes d: "0 < d" "d \<le> 2 ^ 40" and s: "0 \<le> s"
  shows "\<bar>rnd (rnd (rnd (of_int (d * 2)) * multiplier_value c) * streak_factor s)
           - of_int d * 2 * multiplier_spec c * (1 + min (1 / 2) (of_int s * (1 / 10)))\<bar> < 1 / 50"
    and "0 \<le> rnd (rnd (rnd (of_int (d * 2)) * multiplier_value c) * streak_factor s)"
proof -
  define B :: rat where "B = of_int (d * 2)"
  define m where "m = multiplier_spec c"
  define mh where "mh = multiplier_value c"
  define T :: rat where "T = 1 + min (1 / 2) (of_int s * (1 / 10))"
  define th where "th = streak_factor s"
  define L :: rat where "L = 1 - 1 / 2 ^ 53"
  define U :: rat where "U = 1 + 1 / 2 ^ 53"
  define p1 where "p1 = rnd (B * mh)"
  define P where "P = rnd (p1 * th)"
  define E where "E = B * m * T"
  have LU: "0 < L" "0 < U" "1 - 4 / 2 ^ 53 \<le> L * L * (L * L)" "U * U * (U * U) \<le> 1 + 5 / 2 ^ 53"
    by (simp_all add: L_def U_def)
  have "\<bar>d * 2\<bar> < 2 ^ 53" using d by simp
  then have rB: "rnd B = B" unfolding B_def by (rule rnd_of_int)
  have "(of_int 2 :: rat) \<le> of_int (d * 2)" using d(1) unfolding of_int_le_iff by linarith
  then have B2: "2 \<le> B" by (simp add: B_def)
  have "(of_int (d * 2) :: rat) \<le> of_int (2 ^ 41)" using d(2) unfolding of_int_le_iff by simp
  then have B41: "B \<le> 2 ^ 41" by (simp add: B_def)
  have m: "1 / 2 \<le> m" "m \<le> 3 / 2"
    using multiplier_spec_range [of c] by (simp_all add: m_def)
  have mh: "1 / 2 \<le> mh" "m * L \<le> mh" "mh \<le> m * U"
    using multiplier_value_range(2) [of c] multiplier_value_error [of c]
    by (simp_all add: mh_def m_def L_def U_def)
  have T: "1 \<le> T" "T \<le> 3 / 2" using s by (simp_all add: T_def)
  have th: "1 \<le> th" "T * L \<le> th" "th \<le> T * U"
    using streak_factor_range(1) [OF s] streak_factor_error [OF s]
    by (simp_all add: th_def T_def L_def U_def)
  have x1: "1 \<le> B * mh"
  proof -
    have "2 * (1 / 2) \<le> B * mh" using B2 mh(1) by (intro mult_mono) simp_all
    then show ?thesis by simp
  qed
  have small: "(2::rat) powi (- 1022) \<le> 1"
    using power_int_increasing [of "- 1022" 0 "2::rat"] by simp
  have n1: "2 powi (- 1022) \<le> B * mh" using x1 small by linarith
  have p1_lo: "B * mh * L \<le> p1" and p1_hi: "p1 \<le> B * mh * U"
    using rnd_rel_error [OF n1] by (simp_all add: p1_def L_def U_def)
  have p1_1: "1 \<le> p1" using rnd_mono [OF x1] by (simp add: p1_def rnd_1)
  have x2: "1 \<le> p1 * th"
  proof -
    have "1 * 1 \<le> p1 * th" using p1_1 th(1) by (intro mult_mono) simp_all
    then show ?thesis by simp
  qed
  have n2: "2 powi (- 1022) \<le> p1 * th" using x2 small by linarith
  have P_lo: "p1 * th * L \<le> P" and P_hi: "P \<le> p1 * th * U"
    using rnd_rel_error [OF n2] by (simp_all add: P_def L_def U_def)
  have Bpos: "0 \<le> B" using B2 by simp
  have mpos: "0 \<le> m" using m by simp
  have Tpos: "0 \<le> T" using T by simp
  have thpos: "0 \<le> th" using th(1) by simp
  have p1pos: "0 \<le> p1" using p1_1 by simp
  have TL: "0 \<le> T * L" using Tpos LU(1) by simp
  have Epos: "0 \<le> E" unfolding E_def using Bpos mpos Tpos by simp
  have "E \<le> 2 ^ 41 * (3 / 2) * (3 / 2)"
    unfolding E_def using B41 m(2) T(2) Bpos mpos Tpos by (intro mult_mono) simp_all
  then have E43: "E \<le> 2 ^ 43" by simp
  text \<open>upper bound\<close>
  have "B * mh * U \<le> B * (m * U) * U"
    using mh(3) Bpos LU by (intro mult_right_mono mult_left_mono) simp_all
  with p1_hi have a1: "p1 \<le> B * (m * U) * U" by linarith
  have "p1 * th \<le> (B * (m * U) * U) * (T * U)"
    using a1 th(3) thpos p1pos Bpos mpos Tpos LU by (intro mult_mono) simp_all
  then have "p1 * th * U \<le> (B * (m * U) * U) * (T * U) * U"
    using LU by (intro mult_right_mono) simp_all
  with P_hi have "P \<le> (B * (m * U) * U) * (T * U) * U" by linarith
  also have "\<dots> = E * (U * U * (U * U))" by (simp add: E_def)
  also have "\<dots> \<le> E * (1 + 5 / 2 ^ 53)" using Epos LU(4) by (rule mult_left_mono [rotated])
  finally have "P - E \<le> E * (5 / 2 ^ 53)" by (simp add: algebra_simps)
  also have "\<dots> \<le> 2 ^ 43 * (5 / 2 ^ 53)" using E43 by (intro mult_right_mono) simp_all
  also have "\<dots> < 1 / 50" by simp
  finally have up: "P - E < 1 / 50" .
  text \<open>lower bound\<close>
  have "B * (m * L) * L \<le> B * mh * L"
    using mh(2) Bpos LU by (intro mult_right_mono mult_left_mono) simp_all
  with p1_lo have b1: "B * (m * L) * L \<le> p1" by linarith
  have "(B * (m * L) * L) * (T * L) \<le> p1 * th"
    using b1 th(2) p1pos TL by (intro mult_mono) simp_all
  then have "(B * (m * L) * L) * (T * L) * L \<le> p1 * th * L"
    using LU by (intro mult_right_mono) simp_all
  with P_lo have low: "(B * (m * L) * L) * (T * L) * L \<le> P" by linarith
  have "E * (1 - 4 / 2 ^ 53) \<le> E * (L * L * (L * L))"
    using Epos LU(3) by (rule mult_left_mono [rotated])
  also have "\<dots> = (B * (m * L) * L) * (T * L) * L" by (simp add: E_def)
  also have "\<dots> \<le> P" by (rule low)
  finally have "E - P \<le> E * (4 / 2 ^ 53)" by (simp add: algebra_simps)
  also have "\<dots> \<le> 2 ^ 43 * (4 / 2 ^ 53)" using E43 by (intro mult_right_mono) simp_all
  also have "\<dots> < 1 / 50" by simp
  finally have lo: "E - P < 1 / 50" .
  have "\<bar>P - E\<bar> < 1 / 50" using up lo by linarith
  moreover have "0 \<le> P" using rnd_mono [OF x2] by (simp add: P_def rnd_1)
  ultimately show
    "\<bar>rnd (rnd (rnd (of_int (d * 2)) * multiplier_value c) * streak_factor s)
       - of_int d * 2 * multiplier_spec c * (1 + min (1 / 2) (of_int s * (1 / 10)))\<bar> < 1 / 50"
    and "0 \<le> rnd (rnd (rnd (of_int (d * 2)) * multiplier_value c) * streak_factor s)"
    using rB by (simp_all add: P_def p1_def E_def B_def mh_def th_def m_def T_def)
qed


lemma session_xp_value_nonpos:
  assumes "d \<le> 0" and "0 \<le> s" and "0 \<le> m"
  shows "session_xp_value d m s = 5"
proof -
  have "rnd (of_int (d * 2)) \<le> rnd 0" using assms(1) by (intro rnd_mono) simp
  then have "rnd (of_int (d * 2)) * m \<le> 0" using assms(3) by (simp add: mult_le_0_iff)
  then have "rnd (rnd (of_int (d * 2)) * m) \<le> rnd 0" by (rule rnd_mono)
  moreover have "0 \<le> streak_factor s" using streak_factor_range(1) [OF assms(2)] by simp
  ultimately have "rnd (rnd (of_int (d * 2)) * m) * streak_factor s \<le> 0"
    by (simp add: mult_le_0_iff)
  then have "rnd (rnd (rnd (of_int (d * 2)) * m) * streak_factor s) \<le> rnd 0" by (rule rnd_mono)
  then have "trunc (rnd (rnd (rnd (of_int (d * 2)) * m) * streak_factor s)) \<le> 0"
    by (intro trunc_nonpos) simp
  then show ?thesis by (simp add: session_xp_value_def)
qed

lemma session_xp_spec_nonpos:
  assumes "d \<le> 0" and "0 \<le> s"
  shows "session_xp_spec d c s = 5"
proof -
  have "(of_int d :: rat) \<le> 0" using assms(1) by simp
  moreover have "0 \<le> 2 * multiplier_spec c * (1 + min (1 / 2) (of_int s * (1 / 10)))"
    using multiplier_spec_range(1) [of c] assms(2) by (intro mult_nonneg_nonneg) simp_all
  ultimately have "of_int d * (2 * multiplier_spec c * (1 + min (1 / 2) (of_int s * (1 / 10)))) \<le> 0"
    by (rule mult_nonpos_nonneg)
  then have "\<lfloor>of_int d * 2 * multiplier_spec c * (1 + min (1 / 2) (of_int s * (1 / 10)))\<rfloor> \<le> 0"
    by (simp add: floor_le_iff mult.assoc)
  then show ?thesis by (simp add: session_xp_spec_def)
qed

lemma session_xp_value_near_spec:
  assumes "\<bar>d\<bar> \<le> 2 ^ 40" and "0 \<le> s"
  shows "session_xp_value d (multiplier_value c) s = session_xp_spec d c s
         \<or> session_xp_value d (multiplier_value c) s = session_xp_spec d c s - 1"
proof (cases "0 < d")
  case False
  then have "d \<le> 0" by simp
  from session_xp_value_nonpos [OF this assms(2)] session_xp_spec_nonpos [OF this assms(2)]
  show ?thesis using multiplier_value_range(2) [of c] by simp
next
  case True
  define P where "P = rnd (rnd (rnd (of_int (d * 2)) * multiplier_value c) * streak_factor s)"
  define E where "E = of_int d * 2 * multiplier_spec c * (1 + min (1 / 2) (of_int s * (1 / 10)))"
  have d: "d \<le> 2 ^ 40" using assms(1) by simp
  have near: "\<bar>P - E\<bar> < 1 / 50" and Ppos: "0 \<le> P"
    unfolding P_def E_def by (rule session_product_near [OF True d assms(2)])+
  obtain a :: int where a: "multiplier_spec c = of_int a / 10"
    by (rule multiplier_spec_tenths)
  obtain b :: int where b: "1 + min (1 / 2) (of_int s * (1 / 10) :: rat) = of_int b / 10"
    by (rule streak_exact_tenths [OF assms(2)])
  have "50 * E = of_int (d * a * b)" unfolding E_def a b by simp
  from floor_near [OF near this] have fl: "\<lfloor>P\<rfloor> = \<lfloor>E\<rfloor> \<or> \<lfloor>P\<rfloor> = \<lfloor>E\<rfloor> - 1" .
  have v: "session_xp_value d (multiplier_value c) s = max 5 \<lfloor>P\<rfloor>"
    using Ppos by (simp add: session_xp_value_def trunc_def P_def)
  have sp: "session_xp_spec d c s = max 5 \<lfloor>E\<rfloor>"
    by (simp add: session_xp_spec_def E_def)
  show ?thesis unfolding v sp using fl by auto
qed

text \<open>
  C1 as stated fails twice: \<^verbatim>\<open>session_xp(30, 3, 0)\<close> is 60 (30 \<times> 2 \<times> 1.0 \<times> 1.0), not
  180; and the double product can fall below an integer that the exact product reaches:
  \<^verbatim>\<open>90 * 0.7\<close> is 62.99999999999999, so \<^verbatim>\<open>session_xp(45, 2, 0)\<close> is 62 where the formula
  gives 63.
\<close>

theorem session_xp_counterexample:
  "calculate_session_xp 30 3 0 = Inr 60
   \<and> calculate_session_xp 45 2 0 = Inr 62 \<and> session_xp_spec 45 2 0 = 63"
proof -
  have m3: "multiplier_get 3 (lit 1) = Fin 1"
    and m2: "multiplier_get 2 (lit 1) = Fin (6305039478318694 / 2 ^ 53)"
    using multiplier_get_cases [of 3] multiplier_get_cases [of 2] by simp_all
  have "calculate_session_xp 30 3 0 = Inr (session_xp_value 30 1 0)"
    by (rule calculate_session_xp_value [OF _ _ _ m3]) simp_all
  moreover have "session_xp_value 30 1 0 = 60" by code_simp
  moreover have "calculate_session_xp 45 2 0
                   = Inr (session_xp_value 45 (6305039478318694 / 2 ^ 53) 0)"
    by (rule calculate_session_xp_value [OF _ _ _ m2]) simp_all
  moreover have "session_xp_value 45 (6305039478318694 / 2 ^ 53) 0 = 62" by code_simp
  moreover have "session_xp_spec 45 2 0 = 63"
    by (simp add: session_xp_spec_def multiplier_spec_def)
  ultimately show ?thesis by simp
qed

text \<open>
  C1, amended. For every duration of magnitude up to \<open>2\<^sup>4\<^sup>0\<close> minutes, every rating and
  every streak from 0 to \<open>2\<^sup>6\<^sup>3\<close> days, \<^verbatim>\<open>session_xp\<close> returns the value of the formula
  \<open>max(5, \<lfloor>duration \<times> 2 \<times> m \<times> (1 + min(0.5, streak \<times> 0.1))\<rfloor>)\<close> or one less (the product
  is computed in double precision); \<^verbatim>\<open>session_xp(30, 3, 0)\<close> is 60 and
  \<^verbatim>\<open>session_xp(1, 1, 0)\<close> is 5.
\<close>

theorem session_xp_near_spec:
  assumes "\<bar>d\<bar> \<le> 2 ^ 40" and "0 \<le> s" and "s \<le> 2 ^ 63"
  shows "(\<exists>x. calculate_session_xp d c s = Inr x
              \<and> (x = session_xp_spec d c s \<or> x = session_xp_spec d c s - 1))
         \<and> calculate_session_xp 30 3 0 = Inr 60 \<and> calculate_session_xp 1 1 0 = Inr 5"
proof -
  have "\<bar>d\<bar> \<le> 2 ^ 63" using assms(1) by simp
  then have "calculate_session_xp d c s = Inr (session_xp_value d (multiplier_value c) s)"
    using assms(2,3) multiplier_value_range [of c] by (rule calculate_session_xp_value)
  with session_xp_value_near_spec [OF assms(1,2), of c]
  have general: "\<exists>x. calculate_session_xp d c s = Inr x
              \<and> (x = session_xp_spec d c s \<or> x = session_xp_spec d c s - 1)"
    by auto
  have m3: "multiplier_get 3 (lit 1) = Fin 1" and m1: "multiplier_get 1 (lit 1) = Fin (1 / 2)"
    using multiplier_get_cases [of 3] multiplier_get_cases [of 1] by simp_all
  have "calculate_session_xp 30 3 0 = Inr (session_xp_value 30 1 0)"
    by (rule calculate_session_xp_value [OF _ _ _ m3]) simp_all
  moreover have "session_xp_value 30 1 0 = 60" by code_simp
  moreover have "calculate_session_xp 1 1 0 = Inr (session_xp_value 1 (1 / 2) 0)"
    by (rule calculate_session_xp_value [OF _ _ _ m1]) simp_all
  moreover have "session_xp_value 1 (1 / 2) 0 = 5" by code_simp
  ultimately show ?thesis using general by simp
qed

theorem session_xp_near_spec_witness:
  "\<bar>45::int\<bar> \<le> 2 ^ 40 \<and> (0::int) \<le> 3 \<and> (3::int) \<le> 2 ^ 63
   \<and> (\<exists>x. calculate_session_xp 45 2 3 = Inr x
          \<and> (x = session_xp_spec 45 2 3 \<or> x = session_xp_spec 45 2 3 - 1))"
  using session_xp_near_spec [of 45 3 2] by simp

lemma band_membership:
  assumes "0 \<le> a" and "a < 15300"
  shows "band_lower (get_level a) \<le> a"
    and "a < band_lower (get_level a) + band_width (get_level a)"
  using assms
  by (simp_all add: get_level_def get_level_of_def level_thresholds_def band_lower_def
      band_width_def)

lemma band_widths:
  assumes "1 \<le> cl" and "cl < 21"
  shows "band_width cl \<le> 1700"
    and "band_lower cl < 6900 \<Longrightarrow> band_width cl \<le> 900 \<or> band_width cl = 1000"
proof -
  have all: "\<forall>c\<in>set [1..<21]. band_width c \<le> 1700
               \<and> (band_lower c < 6900 \<longrightarrow> band_width c \<le> 900 \<or> band_width c = 1000)"
    by code_simp
  have "cl \<in> set [1..<21]" using assms by simp
  with all show "band_width cl \<le> 1700"
    and "band_lower cl < 6900 \<Longrightarrow> band_width cl \<le> 900 \<or> band_width cl = 1000"
    by blast+
qed


text \<open>
  Ten times the percentage before its rounding to one decimal, for \<open>x\<close> XP into a band of
  width \<open>r\<close> up to 1700: within \<open>2\<^sup>-\<^sup>4\<^sup>0\<close> of \<open>1000 x / r\<close>.
\<close>

lemma scaled_progress_error:
  assumes "0 \<le> x" and "x < r" and "r \<le> 1700"
  shows "\<bar>rnd (rnd (of_int x / of_int r) * 100) * 10 - 1000 * (of_int x / of_int r)\<bar>
           \<le> 1 / 2 ^ 40"
proof (cases "x = 0")
  case True
  then show ?thesis by simp
next
  case False
  define t :: rat where "t = of_int x / of_int r"
  define L :: rat where "L = 1 - 1 / 2 ^ 53"
  define U :: rat where "U = 1 + 1 / 2 ^ 53"
  have LU: "0 < L" "0 < U" "1 - 1 / 2 ^ 51 \<le> L * L" "U * U \<le> 1 + 1 / 2 ^ 51"
    "1 / 2 \<le> L"
    by (simp_all add: L_def U_def)
  have x1: "1 \<le> x" using assms(1) False by simp
  have rpos: "0 < r" using assms(1,2) by simp
  have "(of_int 1 :: rat) \<le> of_int x" using x1 by (simp only: of_int_le_iff)
  moreover have "(of_int r :: rat) \<le> of_int 1700" using assms(3) by (simp only: of_int_le_iff)
  moreover have rr: "(0::rat) < of_int r" using rpos by simp
  ultimately have "(1::rat) / 1700 \<le> of_int x / of_int r"
    by (intro frac_le) simp_all
  then have t_lo: "1 / 1700 \<le> t" by (simp add: t_def)
  have "(of_int x :: rat) < of_int r" using assms(2) by (simp only: of_int_less_iff)
  then have t_hi: "t < 1" using rr by (simp add: t_def)
  have small: "(2::rat) powi (- 1022) \<le> 1 / 2048"
    using power_int_increasing [of "- 1022" "- 11" "2::rat"]
    by (simp add: power_int_minus_divide)
  have n1: "2 powi (- 1022) \<le> t" using small t_lo by linarith
  define q where "q = rnd t"
  have q: "t * L \<le> q" "q \<le> t * U"
    using rnd_rel_error [OF n1] by (simp_all add: q_def L_def U_def)
  have "1 / 1700 * (1 / 2) \<le> t * L" using t_lo LU(5) by (intro mult_mono) simp_all
  with q(1) have q_lo: "1 / 3400 \<le> q" by simp
  have n2: "2 powi (- 1022) \<le> q * 100" using small q_lo by linarith
  define y where "y = rnd (q * 100)"
  have y: "q * 100 * L \<le> y" "y \<le> q * 100 * U"
    using rnd_rel_error [OF n2] by (simp_all add: y_def L_def U_def)
  have tpos: "0 \<le> t" using t_lo by simp
  have "t * L * 100 * L \<le> q * 100 * L"
    using q(1) LU by (intro mult_right_mono) simp_all
  with y(1) have "t * (L * L) * 100 \<le> y" by (simp add: mult_ac)
  moreover have "t * (1 - 1 / 2 ^ 51) \<le> t * (L * L)"
    using tpos LU(3) by (rule mult_left_mono [rotated])
  then have "t * (1 - 1 / 2 ^ 51) * 100 \<le> t * (L * L) * 100"
    by (intro mult_right_mono) simp_all
  ultimately have lo: "t * (1 - 1 / 2 ^ 51) * 100 \<le> y" by linarith
  have "q * 100 * U \<le> t * U * 100 * U"
    using q(2) LU by (intro mult_right_mono) simp_all
  with y(2) have "y \<le> t * (U * U) * 100" by (simp add: mult_ac)
  moreover have "t * (U * U) \<le> t * (1 + 1 / 2 ^ 51)"
    using tpos LU(4) by (rule mult_left_mono [rotated])
  then have "t * (U * U) * 100 \<le> t * (1 + 1 / 2 ^ 51) * 100"
    by (intro mult_right_mono) simp_all
  ultimately have hi: "y \<le> t * (1 + 1 / 2 ^ 51) * 100" by linarith
  have tt: "t * (1000 / 2 ^ 51) \<le> 1 * (1000 / 2 ^ 51)"
    using t_hi by (intro mult_right_mono) simp_all
  have "y * 10 - 1000 * t \<le> t * (1000 / 2 ^ 51)" using hi by (simp add: algebra_simps)
  moreover have "1000 * t - y * 10 \<le> t * (1000 / 2 ^ 51)" using lo by (simp add: algebra_simps)
  moreover have "(1000::rat) / 2 ^ 51 \<le> 1 / 2 ^ 40" by simp
  ultimately have "\<bar>y * 10 - 1000 * t\<bar> \<le> 1 / 2 ^ 40" using tt by linarith
  then show ?thesis by (simp add: y_def q_def t_def)
qed

lemma round_half_even_near_int:
  assumes "\<bar>z - of_int m\<bar> < 1 / 2"
  shows "round_half_even z = m"
proof -
  have e: "\<bar>of_int (round_half_even z) - z\<bar> \<le> 1 / 2" by (rule round_half_even_error)
  have "\<bar>(of_int (round_half_even z) :: rat) - of_int m\<bar> < 1" using assms e by linarith
  then have "\<bar>(of_int (round_half_even z - m) :: rat)\<bar> < of_int 1" by simp
  then have "\<bar>round_half_even z - m\<bar> < 1"
    unfolding of_int_abs [symmetric] of_int_less_iff .
  then show ?thesis by simp
qed

lemma round_half_even_strict:
  assumes "z + 1 < w"
  shows "round_half_even z < round_half_even w"
proof -
  have "\<bar>of_int (round_half_even z) - z\<bar> \<le> 1 / 2"
    by (rule round_half_even_error)
  moreover have "\<bar>of_int (round_half_even w) - w\<bar> \<le> 1 / 2"
    by (rule round_half_even_error)
  ultimately have "(of_int (round_half_even z) :: rat) < of_int (round_half_even w)"
    using assms by linarith
  then show ?thesis by (simp only: of_int_less_iff)
qed

text \<open>Distinct tenths up to 100.0 are distinct doubles, in the same order.\<close>

lemma rnd_tenths_strict:
  assumes "0 \<le> n" and "n < m" and "m \<le> 1000"
  shows "rnd (of_int n / 10) < rnd (of_int m / 10)"
proof (cases "n = 0")
  case True
  have "(1 :: rat) \<le> of_int m" using assms True by simp
  then have "rnd (1 / 10) \<le> rnd (of_int m / 10)" by (intro rnd_mono) simp
  then show ?thesis using True by (simp add: rnd_1_10)
next
  case False
  define N :: rat where "N = of_int n"
  define M :: rat where "M = of_int m"
  have "(1 :: rat) \<le> of_int n" using assms(1) False by simp
  then have N1: "1 \<le> N" by (simp add: N_def)
  have "(of_int (n + 1) :: rat) \<le> of_int m" using assms(2) by (subst of_int_le_iff) simp
  then have NM: "N + 1 \<le> M" by (simp add: N_def M_def)
  have "(of_int m :: rat) \<le> of_int 1000" using assms(3) by (simp only: of_int_le_iff)
  then have M1000: "M \<le> 1000" by (simp add: M_def)
  have small: "(2::rat) powi (- 1022) \<le> 1 / 2048"
    using power_int_increasing [of "- 1022" "- 11" "2::rat"]
    by (simp add: power_int_minus_divide)
  have "2 powi (- 1022) \<le> N / 10" "2 powi (- 1022) \<le> M / 10"
    using small N1 NM by linarith+
  from rnd_rel_error(2) [OF this(1)] rnd_rel_error(1) [OF this(2)]
  have up: "rnd (N / 10) \<le> N / 10 * (1 + 1 / 2 ^ 53)"
    and lo: "M / 10 * (1 - 1 / 2 ^ 53) \<le> rnd (M / 10)" .
  have a: "N * (1 / 2 ^ 53) \<le> 1000 * (1 / 2 ^ 53)"
    using NM M1000 by (intro mult_right_mono) simp_all
  have b: "M * (1 / 2 ^ 53) \<le> 1000 * (1 / 2 ^ 53)"
    using M1000 by (intro mult_right_mono) simp_all
  have "N / 10 * (1 + 1 / 2 ^ 53) < M / 10 * (1 - 1 / 2 ^ 53)"
    using a b NM by (simp add: algebra_simps)
  with up lo have "rnd (N / 10) < rnd (M / 10)" by linarith
  then show ?thesis by (simp add: N_def M_def)
qed


lemma scaled_progress_range:
  assumes "0 \<le> x" and "x < r" and "r \<le> 1700"
  shows "0 \<le> round_half_even (rnd (rnd (of_int x / of_int r) * 100) * 10)"
    and "round_half_even (rnd (rnd (of_int x / of_int r) * 100) * 10) \<le> 1000"
proof -
  define z where "z = rnd (rnd (of_int x / of_int r) * 100) * 10"
  define t :: rat where "t = of_int x / of_int r"
  have "\<bar>z - 1000 * t\<bar> \<le> 1 / 2 ^ 40"
    unfolding z_def t_def using assms by (rule scaled_progress_error)
  moreover have "(1::rat) / 2 ^ 40 \<le> 1 / 100" by simp
  ultimately have e: "\<bar>z - 1000 * t\<bar> \<le> 1 / 100" by linarith
  have rr: "(0::rat) < of_int r" using assms by simp
  have t0: "0 \<le> t" using assms rr by (simp add: t_def)
  have "- 1 \<le> z" using e t0 by linarith
  then have "of_int (- 1) \<le> z" by simp
  then have "- 1 \<le> round_half_even z" by (rule round_half_even_ge)
  moreover have "round_half_even z \<noteq> - 1"
  proof
    assume m: "round_half_even z = - 1"
    have "\<bar>of_int (round_half_even z) - z\<bar> \<le> 1 / 2" by (rule round_half_even_error)
    then have "\<bar>- 1 - z\<bar> \<le> 1 / 2" by (simp add: m)
    with e t0 show False by linarith
  qed
  ultimately have "0 \<le> round_half_even z" by simp
  then show "0 \<le> round_half_even (rnd (rnd (of_int x / of_int r) * 100) * 10)"
    by (simp add: z_def)
  have "(of_int x :: rat) \<le> of_int r" using assms by simp
  then have t1: "t \<le> 1" using rr by (simp add: t_def)
  have "z \<le> 1001" using e t1 by linarith
  then have "z \<le> of_int 1001" by simp
  then have "round_half_even z \<le> 1001" by (rule round_half_even_le)
  moreover have "round_half_even z \<noteq> 1001"
  proof
    assume m: "round_half_even z = 1001"
    have "\<bar>of_int (round_half_even z) - z\<bar> \<le> 1 / 2" by (rule round_half_even_error)
    then have "\<bar>1001 - z\<bar> \<le> 1 / 2" by (simp add: m)
    with e t1 show False by linarith
  qed
  ultimately have "round_half_even z \<le> 1000" by simp
  then show "round_half_even (rnd (rnd (of_int x / of_int r) * 100) * 10) \<le> 1000"
    by (simp add: z_def)
qed

text \<open>
  The rounded percentage rises strictly over every step of at least 2 XP, and over every
  step when the band is at most 900 XP wide or exactly 1000 XP wide.
\<close>

lemma progress_value_strict:
  assumes "0 \<le> x" and "x < y" and "y < r" and "r \<le> 1700"
    and "x + 2 \<le> y \<or> r \<le> 900 \<or> r = 1000"
  shows "progress_value x r < progress_value y r"
proof -
  define zx where "zx = rnd (rnd (of_int x / of_int r) * 100) * 10"
  define zy where "zy = rnd (rnd (of_int y / of_int r) * 100) * 10"
  define X :: rat where "X = of_int x"
  define Y :: rat where "Y = of_int y"
  define R :: rat where "R = of_int r"
  define tx where "tx = X / R"
  define ty where "ty = Y / R"
  have tiny: "(1::rat) / 2 ^ 40 \<le> 1 / 100" by simp
  have "\<bar>zx - 1000 * tx\<bar> \<le> 1 / 2 ^ 40"
    unfolding zx_def tx_def X_def R_def using assms by (intro scaled_progress_error) simp_all
  with tiny have ex: "\<bar>zx - 1000 * tx\<bar> \<le> 1 / 100" by linarith
  have "\<bar>zy - 1000 * ty\<bar> \<le> 1 / 2 ^ 40"
    unfolding zy_def ty_def Y_def R_def using assms by (intro scaled_progress_error) simp_all
  with tiny have ey: "\<bar>zy - 1000 * ty\<bar> \<le> 1 / 100" by linarith
  have Rpos: "0 < R" using assms by (simp add: R_def)
  have R1700: "R \<le> 1700" using assms(4) by (simp add: R_def)
  have "(of_int (x + 1) :: rat) \<le> of_int y" using assms(2) by (subst of_int_le_iff) simp
  then have XY1: "X + 1 \<le> Y" by (simp add: X_def Y_def)
  have strict: "round_half_even zx < round_half_even zy"
  proof (cases "r = 1000")
    case True
    then have "1000 * tx = of_int x" "1000 * ty = of_int y"
      by (simp_all add: tx_def ty_def R_def X_def Y_def)
    with ex ey have "\<bar>zx - of_int x\<bar> < 1 / 2" "\<bar>zy - of_int y\<bar> < 1 / 2"
      by linarith+
    then have "round_half_even zx = x" "round_half_even zy = y"
      by (simp_all add: round_half_even_near_int)
    then show ?thesis using assms(2) by simp
  next
    case False
    have gap: "11 / 10 * R \<le> 1000 * (Y - X)"
    proof (cases "x + 2 \<le> y")
      case True
      then have "(of_int (x + 2) :: rat) \<le> of_int y" by (subst of_int_le_iff)
      then have "X + 2 \<le> Y" by (simp add: X_def Y_def)
      then show ?thesis using R1700 by simp
    next
      case F: False
      with assms(5) False have "r \<le> 900" by simp
      then have "(of_int r :: rat) \<le> of_int 900" by (subst of_int_le_iff)
      then have "R \<le> 900" by (simp add: R_def)
      then show ?thesis using XY1 by simp
    qed
    have "11 / 10 \<le> 1000 * (Y - X) / R"
      using gap Rpos by (simp add: pos_le_divide_eq)
    also have "1000 * (Y - X) / R = 1000 * ty - 1000 * tx"
      by (simp add: tx_def ty_def diff_divide_distrib right_diff_distrib)
    finally have "11 / 10 \<le> 1000 * ty - 1000 * tx" .
    with ex ey have "zx + 1 < zy" by linarith
    then show ?thesis by (rule round_half_even_strict)
  qed
  have "0 \<le> round_half_even zx"
    unfolding zx_def using assms by (intro scaled_progress_range) simp_all
  moreover have "round_half_even zy \<le> 1000"
    unfolding zy_def using assms by (intro scaled_progress_range) simp_all
  ultimately have "rnd (of_int (round_half_even zx) / 10) < rnd (of_int (round_half_even zy) / 10)"
    using strict by (intro rnd_tenths_strict)
  then show ?thesis by (simp add: progress_value_def zx_def zy_def)
qed


text \<open>
  C7, amended. Within one level band below the maximum level, the progress percentage
  never decreases when the total XP increases; it increases strictly over every step of
  at least 2 XP, and over every step at all below 6900 XP (the bands up to level 14, at
  most 1000 XP wide). At the lower threshold of each band (entering level \<open>k + 1\<close>) it
  is exactly 0.
\<close>

theorem level_progress_monotone:
  assumes "0 \<le> a" and "a \<le> b" and "b < 15300" and "get_level a = get_level b"
    and "k < 20"
  shows "\<exists>ra rb pa pb r0.
           get_level_progress a = Inr ra \<and> get_level_progress b = Inr rb
           \<and> progress ra = Fin pa \<and> progress rb = Fin pb \<and> pa \<le> pb
           \<and> (a + 2 \<le> b \<longrightarrow> pa < pb)
           \<and> (a < b \<and> b < 6900 \<longrightarrow> pa < pb)
           \<and> get_level_progress (level_thresholds ! k) = Inr r0
           \<and> current_level r0 = Suc k \<and> progress r0 = Fin 0"
proof -
  define c where "c = get_level a"
  have cb: "get_level b = c" using assms(4) by (simp add: c_def)
  have c1: "1 \<le> c" "c < 21"
    using get_level_ge_1 [of a] get_level_below_max [of a] assms by (simp_all add: c_def)
  have ra: "get_level_progress a =
      Inr \<lparr>current_level = c, progress = Fin (progress_value (a - band_lower c) (band_width c)),
           xp_to_next = level_thresholds ! c - a, current_xp = Some (a - band_lower c),
           required_xp = Some (band_width c)\<rparr>"
    unfolding c_def using assms get_level_below_max [of a]
    by (intro get_level_progress_value) simp_all
  have rb: "get_level_progress b =
      Inr \<lparr>current_level = c, progress = Fin (progress_value (b - band_lower c) (band_width c)),
           xp_to_next = level_thresholds ! c - b, current_xp = Some (b - band_lower c),
           required_xp = Some (band_width c)\<rparr>"
    unfolding cb [symmetric] using assms get_level_below_max [of b]
    by (intro get_level_progress_value) simp_all
  have le: "progress_value (a - band_lower c) (band_width c)
              \<le> progress_value (b - band_lower c) (band_width c)"
    using assms(2) band_facts(1) [OF c1] by (intro progress_value_mono) simp_all
  have lo: "band_lower c \<le> a" unfolding c_def using assms by (intro band_membership) simp_all
  have hi: "b < band_lower c + band_width c"
    unfolding cb [symmetric] using assms by (intro band_membership) simp_all
  have w: "band_width c \<le> 1700" using c1 by (rule band_widths)
  have lt: "progress_value (a - band_lower c) (band_width c)
              < progress_value (b - band_lower c) (band_width c)"
    if "a < b" and "a + 2 \<le> b \<or> b < 6900"
  proof -
    have "band_width c \<le> 900 \<or> band_width c = 1000" if "b < 6900"
      using band_widths(2) [OF c1] lo assms(2) that by simp
    with that(2) have "a - band_lower c + 2 \<le> b - band_lower c \<or> band_width c \<le> 900
        \<or> band_width c = 1000"
      by auto
    then show ?thesis using lo hi w that(1) by (intro progress_value_strict) simp_all
  qed
  note t = threshold_levels [OF assms(5)]
  have "get_level_progress (level_thresholds ! k) =
      Inr \<lparr>current_level = Suc k, progress = Fin (progress_value 0 (band_width (Suc k))),
           xp_to_next = level_thresholds ! Suc k - level_thresholds ! k,
           current_xp = Some 0, required_xp = Some (band_width (Suc k))\<rparr>"
    using get_level_progress_value [of "level_thresholds ! k"] assms(5) t
    by simp
  then have r0: "get_level_progress (level_thresholds ! k) =
      Inr \<lparr>current_level = Suc k, progress = Fin 0,
           xp_to_next = level_thresholds ! Suc k - level_thresholds ! k,
           current_xp = Some 0, required_xp = Some (band_width (Suc k))\<rparr>"
    by (simp add: progress_value_0)
  show ?thesis
    unfolding ra rb r0 using le lt by simp
qed

theorem level_progress_monotone_witness:
  "(0::int) \<le> 6898 \<and> (6898::int) \<le> 6899 \<and> (6899::int) < 15300
   \<and> get_level 6898 = get_level 6899 \<and> (19::nat) < 20
   \<and> (6898::int) < 6899 \<and> (6899::int) < 6900
   \<and> (\<exists>ra rb pa pb r0.
         get_level_progress 6898 = Inr ra \<and> get_level_progress 6899 = Inr rb
         \<and> progress ra = Fin pa \<and> progress rb = Fin pb \<and> pa \<le> pb \<and> pa < pb
         \<and> get_level_progress (level_thresholds ! 19) = Inr r0
         \<and> current_level r0 = Suc 19 \<and> progress r0 = Fin 0)
   \<and> (0::int) \<le> 13601 \<and> (13601::int) \<le> 13603 \<and> (13603::int) < 15300
   \<and> get_level 13601 = get_level 13603 \<and> (0::nat) < 20 \<and> (13601::int) + 2 \<le> 13603
   \<and> (\<exists>ra rb pa pb r0.
         get_level_progress 13601 = Inr ra \<and> get_level_progress 13603 = Inr rb
         \<and> progress ra = Fin pa \<and> progress rb = Fin pb \<and> pa \<le> pb \<and> pa < pb
         \<and> get_level_progress (level_thresholds ! 0) = Inr r0
         \<and> current_level r0 = Suc 0 \<and> progress r0 = Fin 0)"
proof -
  have l: "get_level 6898 = get_level 6899"
    by (simp add: get_level_def get_level_of_def level_thresholds_def)
  have m: "get_level 13601 = get_level 13603"
    by (simp add: get_level_def get_level_of_def level_thresholds_def)
  from level_progress_monotone [of 6898 6899 19, OF _ _ _ l]
  have 1: "\<exists>ra rb pa pb r0.
         get_level_progress 6898 = Inr ra \<and> get_level_progress 6899 = Inr rb
         \<and> progress ra = Fin pa \<and> progress rb = Fin pb \<and> pa \<le> pb \<and> pa < pb
         \<and> get_level_progress (level_thresholds ! 19) = Inr r0
         \<and> current_level r0 = Suc 19 \<and> progress r0 = Fin 0"
    by auto
  from level_progress_monotone [of 13601 13603 0, OF _ _ _ m]
  have 2: "\<exists>ra rb pa pb r0.
         get_level_progress 13601 = Inr ra \<and> get_level_progress 13603 = Inr rb
         \<and> progress ra = Fin pa \<and> progress rb = Fin pb \<and> pa \<le> pb \<and> pa < pb
         \<and> get_level_progress (level_thresholds ! 0) = Inr r0
         \<and> current_level r0 = Suc 0 \<and> progress r0 = Fin 0"
    by auto
  show ?thesis using l m 1 2 by simp
qed

section \<open>Insufficient data and the recommendation list\<close>

lemma length_daily_spending:
  "length (daily_spending gsum expense_data) = card (expense_date ` set expense_data)"
  by (simp add: daily_spending_def Let_def length_remdups_card_conv)

text \<open>
  C6. Insufficient input is a normal outcome: with fewer than 5 sessions
  \<^verbatim>\<open>analyze_weaknesses\<close> returns the empty list of weak topics and one explanatory
  message; with fewer than 5 expense records, or with records on fewer than 2 distinct
  dates, \<^verbatim>\<open>forecast_spending\<close> returns (not raises) no forecast and a non-empty message.
\<close>

theorem insufficient_data_is_normal:
  "(length user_data < 5 \<longrightarrow>
      analyze_weaknesses sort_values ml user_data
        = ([], [''Need more study sessions for accurate analysis.'']))
   \<and> (length expense_data < 5 \<or> card (expense_date ` set expense_data) < 2 \<longrightarrow>
        (\<exists>msg. forecast_spending gsum regress fmt str expense_data forecast_days
                  = Inr (None, msg)
               \<and> msg \<noteq> []))"
  by (auto simp: analyze_weaknesses_def forecast_spending_def Let_def length_daily_spending)

theorem insufficient_data_is_normal_witness:
  "length [\<lparr>date = 1, subject = ''Maths'', chapter_name = ''Algebra'', duration_minutes = 30,
             confidence_rating = 3, notes_text = [], timestamp = []\<rparr>] < 5
   \<and> analyze_weaknesses (sort_key date) (\<lambda>u t. Inl ''failed'')
        [\<lparr>date = 1, subject = ''Maths'', chapter_name = ''Algebra'', duration_minutes = 30,
          confidence_rating = 3, notes_text = [], timestamp = []\<rparr>]
        = ([], [''Need more study sessions for accurate analysis.''])
   \<and> (length (replicate 5 \<lparr>expense_id = ''a'', amount = Fin 10, category = ''Food'',
                              expense_date = 7, description = []\<rparr>) < 5
        \<or> card (expense_date ` set (replicate 5 \<lparr>expense_id = ''a'', amount = Fin 10,
                   category = ''Food'', expense_date = 7, description = []\<rparr>)) < 2)
   \<and> (\<exists>msg. forecast_spending sequential_sum rounded_least_squares
                (\<lambda>v. ''0.00'') (\<lambda>n. ''30'')
                (replicate 5 \<lparr>expense_id = ''a'', amount = Fin 10, category = ''Food'',
                               expense_date = 7, description = []\<rparr>) 30 = Inr (None, msg)
             \<and> msg \<noteq> [])"
proof -
  let ?u = "[\<lparr>date = 1, subject = ''Maths'', chapter_name = ''Algebra'', duration_minutes = 30,
               confidence_rating = 3, notes_text = [], timestamp = []\<rparr>]"
  let ?e = "replicate 5 \<lparr>expense_id = ''a'', amount = Fin 10, category = ''Food'',
                            expense_date = 7, description = []\<rparr>"
  have h1: "length ?u < 5" by simp
  have h2: "length ?e < 5 \<or> card (expense_date ` set ?e) < 2" by simp
  from insufficient_data_is_normal [of ?u "sort_key date" "\<lambda>u t. Inl ''failed''" ?e
      sequential_sum rounded_least_squares "\<lambda>v. ''0.00''" "\<lambda>n. ''30''" 30]
    h1 h2
  show ?thesis by blast
qed

lemma generate_recommendations_nonempty:
  "generate_recommendations weak_topics ins user_data \<noteq> []"
  by (simp add: generate_recommendations_def Let_def)

text \<open>
  C10. Whatever the session table and whatever the library calls of the analysis do
  (return insights or raise), the list of recommendations returned by
  \<^verbatim>\<open>analyze_weaknesses\<close> is not empty.
\<close>

theorem recommendations_never_empty:
  "snd (analyze_weaknesses sort_values ml user_data) \<noteq> []"
  by (simp add: analyze_weaknesses_def Let_def generate_recommendations_nonempty
      split: sum.split)

section \<open>The fitted line at day 0\<close>









lemma is_doubleE:
  assumes "is_double f"
  obtains v where "f = Fin v" and "rnd v = v" and "\<bar>v\<bar> \<le> DBL_MAX"
  using assms by (cases f) (simp_all add: is_double_def)




text \<open>At day 0 the fitted line gives its intercept, with no rounding.\<close>

lemma predict_day0:
  assumes "is_double (fst model)" and "is_double (snd model)"
  shows "predict model 0 = fst model"
proof -
  obtain c where c: "fst model = Fin c" "rnd c = c" "\<bar>c\<bar> \<le> DBL_MAX"
    using assms(1) by (rule is_doubleE)
  obtain m where m: "snd model = Fin m" using assms(2) by (rule is_doubleE)
  have z: "to_double 0 = Fin 0" using to_double_Fin [of 0] by (simp add: rnd_0 DBL_MAX_def)
  have "to_double c = Fin c" using to_double_Fin [OF c(3)] by (simp add: c(2))
  then show ?thesis by (simp add: predict_def c m z)
qed


text \<open>
  On accepted data, when the solver returns, \<^verbatim>\<open>forecast_spending\<close> returns the historical
  cumulative values followed by the values of the fitted line on the days to come.
\<close>

lemma map2_same: "map2 f (map g xs) (map h xs) = map (\<lambda>i. f (g i) (h i)) xs"
  by (induction xs) simp_all

lemma forecast_spending_fitted:
  assumes "5 \<le> length expense_data" and "2 \<le> card (expense_date ` set expense_data)"
    and "fitted_model regress gsum expense_data = Inr model" and "0 < forecast_days"
    and "last_day = fold max (tl (training_days gsum expense_data))
                      (hd (training_days gsum expense_data))"
  shows "\<exists>msg.
           forecast_spending gsum regress fmt str expense_data forecast_days
             = Inr (Some (map (\<lambda>(d, v). (d, v, Historical))
                            (zip (training_days gsum expense_data)
                               (training_values gsum expense_data))
                          @ map (\<lambda>i. (last_day + 1 + int i,
                                       predict model (last_day + 1 + int i), Forecast))
                              [0..<nat forecast_days]),
                    msg)"
proof -
  have n: "[0..<nat forecast_days] \<noteq> []" using assms(4) by simp
  show ?thesis
    using assms(1-3,5) n
    by (simp add: forecast_spending_def Let_def length_daily_spending fitted_model_def
        training_days_def training_values_def map2_same del: upt_eq_Nil_conv)
qed


text \<open>
  The miss on these data does not depend on the solver or on how the group sum adds: with
  any group sum that adds 5 + 5, 10 and 20 + 20 exactly, and any solver within \<open>tol\<close> of
  the least-squares line, the value at day 0 is at least \<open>5 - tol\<close> away from the first
  cumulative value 10.
\<close>

lemma forecast_day0_miss:
  fixes gsum regress tol
  defines "D \<equiv>
     [\<lparr>expense_id = ''a'', amount = Fin 5, category = ''Food'', expense_date = 10, description = []\<rparr>,
      \<lparr>expense_id = ''b'', amount = Fin 5, category = ''Food'', expense_date = 10, description = []\<rparr>,
      \<lparr>expense_id = ''c'', amount = Fin 10, category = ''Food'', expense_date = 11, description = []\<rparr>,
      \<lparr>expense_id = ''d'', amount = Fin 20, category = ''Food'', expense_date = 12, description = []\<rparr>,
      \<lparr>expense_id = ''e'', amount = Fin 20, category = ''Food'', expense_date = 12, description = []\<rparr>]"
  assumes g: "gsum [Fin 5, Fin 5] = Fin 10" "gsum [Fin 10] = Fin 10" "gsum [Fin 20, Fin 20] = Fin 40"
    and f: "fit_within tol (training_days gsum D) (training_values gsum D)
              (fitted_model regress gsum D)"
  shows "\<exists>model c. fitted_model regress gsum D = Inr model \<and> predict model 0 = Fin c
           \<and> first_cumulative gsum D = Fin 10 \<and> 5 - tol \<le> \<bar>c - 10\<bar>"
proof -
  have dates: "sort (remdups (map expense_date D)) = [10, 11, 12]"
    unfolding D_def by code_simp
  have ds: "daily_spending gsum D = [(0, Fin 10), (1, Fin 10), (2, Fin 40)]"
    unfolding daily_spending_def Let_def dates by (simp add: D_def g)
  have X: "training_days gsum D = [0, 1, 2]" by (simp add: training_days_def ds)
  have "cumsum [Fin 10, Fin 10, Fin 40] = [Fin 10, Fin 20, Fin 60]" by code_simp
  then have y: "training_values gsum D = [Fin 10, Fin 20, Fin 60]"
    by (simp add: training_values_def ds)
  have ls: "least_squares (map of_int [0, 1, 2]) (map fin_value [Fin 10, Fin 20, Fin 60])
              = (5, 25)"
    by code_simp
  from f obtain model where model: "fitted_model regress gsum D = Inr model"
    and d: "is_double (fst model)" "is_double (snd model)"
    and near: "\<bar>fin_value (fst model) - 5\<bar> \<le> tol"
    unfolding X y
    by (cases "fitted_model regress gsum D") (simp_all add: fit_within_def ls del: list.map)
  obtain c where c: "fst model = Fin c" using d(1) by (rule is_doubleE)
  have p: "predict model 0 = Fin c" using predict_day0 [OF d] by (simp add: c)
  have "5 - tol \<le> \<bar>c - 10\<bar>" using near by (simp add: c)
  moreover have "first_cumulative gsum D = Fin 10" by (simp add: first_cumulative_def y)
  ultimately show ?thesis using model p by blast
qed



section \<open>The range of the weakness score\<close>

lemma fin_betweenI: "f = Fin v \<Longrightarrow> lo \<le> v \<Longrightarrow> v \<le> hi \<Longrightarrow> fin_between lo hi f"
  by (auto simp: fin_between_def)

lemma fin_betweenE:
  assumes "fin_between lo hi f"
  obtains v where "f = Fin v" and "lo \<le> v" and "v \<le> hi"
  using assms by (auto simp: fin_between_def)

text \<open>An exact result in an interval of moderate size is delivered as a finite double.\<close>

lemma to_double_between:
  assumes "lo \<le> x" and "x \<le> hi" and "- (2 ^ 60) \<le> lo" and "hi \<le> 2 ^ 60"
  shows "fin_between (rnd lo) (rnd hi) (to_double x)"
proof -
  have "\<bar>x\<bar> \<le> 2 ^ 60" using assms by (simp add: abs_le_iff)
  also have "(2::rat) ^ 60 \<le> DBL_MAX" by (rule pow2_le_DBL_MAX) simp
  finally have "to_double x = Fin (rnd x)" by (rule to_double_Fin)
  moreover have "rnd lo \<le> rnd x" "rnd x \<le> rnd hi" using assms by (simp_all add: rnd_mono)
  ultimately show ?thesis by (rule fin_betweenI)
qed

lemma rnd_small_ints [simp]:
  "rnd 4 = 4" "rnd 5 = 5" "rnd 2 = 2" "rnd 500 = 500" "rnd (- 4) = - 4" "rnd (- 2) = - 2"
  using rnd_of_int [of 4] rnd_of_int [of 5] rnd_of_int [of 2] rnd_of_int [of 500]
    rnd_of_int [of "- 4"] rnd_of_int [of "- 2"]
  by simp_all

lemma sum_list_between:
  fixes xs :: "int list"
  assumes "\<forall>x\<in>set xs. lo \<le> x \<and> x \<le> hi"
  shows "lo * int (length xs) \<le> sum_list xs \<and> sum_list xs \<le> hi * int (length xs)"
  using assms by (induction xs) (auto simp: algebra_simps)

lemma series_mean_between:
  assumes "xs \<noteq> []" and "\<forall>x\<in>set xs. 1 \<le> x \<and> x \<le> 5"
  shows "fin_between 1 5 (series_mean xs)"
proof -
  define n :: rat where "n = of_int (int (length xs))"
  have npos: "0 < n" using assms(1) by (simp add: n_def)
  from sum_list_between [OF assms(2)]
  have "(of_int (1 * int (length xs)) :: rat) \<le> of_int (sum_list xs)"
    and "(of_int (sum_list xs) :: rat) \<le> of_int (5 * int (length xs))"
    unfolding of_int_le_iff by simp_all
  then have "1 * n \<le> of_int (sum_list xs)" "of_int (sum_list xs) \<le> 5 * n"
    by (simp_all add: n_def)
  then have "1 \<le> of_int (sum_list xs) / n" "of_int (sum_list xs) / n \<le> 5"
    using npos by (simp_all add: pos_le_divide_eq pos_divide_le_eq)
  then have "fin_between (rnd 1) (rnd 5) (to_double (of_int (sum_list xs) / n))"
    by (rule to_double_between) simp_all
  then show ?thesis using assms(1) by (simp add: series_mean_def n_def rnd_1)
qed

lemma np_round2_between:
  assumes "fin_between 1 5 x"
  shows "fin_between 1 5 (np_round2 x)"
proof -
  from assms obtain v where x: "x = Fin v" and v: "1 \<le> v" "v \<le> 5" by (rule fin_betweenE)
  have "fin_between (rnd 100) (rnd 500) (to_double (v * 100))"
    using v by (intro to_double_between) simp_all
  then obtain y where y: "to_double (v * 100) = Fin y" and yb: "100 \<le> y" "y \<le> 500"
    by (rule fin_betweenE) (simp add: rnd_100)
  have "of_int 100 \<le> y" "y \<le> of_int 500" using yb by simp_all
  then have "100 \<le> round_half_even y" "round_half_even y \<le> 500"
    by (simp_all only: round_half_even_ge round_half_even_le)
  then have "(of_int 100 :: rat) \<le> of_int (round_half_even y)"
    and "(of_int (round_half_even y) :: rat) \<le> of_int 500"
    unfolding of_int_le_iff by simp_all
  then have "1 \<le> (of_int (round_half_even y) :: rat) / 100"
    and "(of_int (round_half_even y) :: rat) / 100 \<le> 5" by simp_all
  then have "fin_between (rnd 1) (rnd 5) (to_double (of_int (round_half_even y) / 100))"
    by (rule to_double_between) simp_all
  then show ?thesis by (simp add: np_round2_def x y rnd_1)
qed


lemma fsub_Fin: "fsub (Fin a) (Fin b) = to_double (a - b)"
  by (simp add: fsub_def)

text \<open>
  The stable sort by date meets the contract of \<^verbatim>\<open>sort_values\<close>; and on rows of pairwise
  distinct dates every sort that meets it returns the same list.
\<close>

lemma sort_key_date_sorted_permutation: "date_sorted_permutation rows (sort_key date rows)"
  by (simp add: date_sorted_permutation_def sorted_sort_key)

lemma sort_key_contract: "sort_values_contract (sort_key date) user_data"
  by (simp add: sort_values_contract_def list_all_iff sort_key_date_sorted_permutation)

lemma filter_key_distinct:
  assumes "distinct (map f zs)" and "k \<in> set zs"
  shows "filter (\<lambda>x. f k = f x) zs = [k]"
  using assms
proof (induction zs)
  case Nil
  then show ?case by simp
next
  case (Cons a zs)
  show ?case
  proof (cases "k = a")
    case True
    have "f a \<notin> f ` set zs" using Cons.prems(1) by simp
    then have "\<forall>x\<in>set zs. f a \<noteq> f x" by blast
    then have "filter (\<lambda>x. f a = f x) zs = []" by (simp add: filter_empty_conv)
    with True show ?thesis by simp
  next
    case False
    with Cons.prems have k: "k \<in> set zs" and d: "distinct (map f zs)" by simp_all
    have "f a \<notin> f ` set zs" using Cons.prems(1) by simp
    moreover have "f k \<in> f ` set zs" using k by (rule imageI)
    ultimately have "f k \<noteq> f a" by metis
    with Cons.IH [OF d k] show ?thesis by simp
  qed
qed

lemma sort_values_distinct_dates:
  assumes "date_sorted_permutation rows out" and "distinct (map date rows)"
  shows "out = sort_key date rows"
proof -
  have m: "mset out = mset rows" and s: "sorted (map date out)"
    using assms(1) by (simp_all add: date_sorted_permutation_def)
  have e: "mset (map date out) = mset (map date rows)" using m by simp
  have d: "distinct (map date out)"
    using assms(2) mset_eq_imp_distinct_iff [OF e] by blast
  have "filter (\<lambda>x. date k = date x) out = filter (\<lambda>x. date k = date x) rows"
    if "k \<in> set out" for k
  proof -
    have "set out = set rows" using m by (rule mset_eq_setD)
    with that have "k \<in> set rows" by simp
    then have "filter (\<lambda>x. date k = date x) rows = [k]"
      using assms(2) by (intro filter_key_distinct)
    moreover have "filter (\<lambda>x. date k = date x) out = [k]"
      using d that by (intro filter_key_distinct)
    ultimately show ?thesis by simp
  qed
  with m s have "sort_key date rows = out" by (intro properties_for_sort_key) simp_all
  then show ?thesis by simp
qed

lemma calculate_improvement_trend_between:
  assumes "\<forall>s\<in>set user_data. 1 \<le> confidence_rating s \<and> confidence_rating s \<le> 5"
    and "date_sorted_permutation (topic_rows user_data sub ch)
           (sort_values (topic_rows user_data sub ch))"
  shows "fin_between (- 4) 4 (calculate_improvement_trend sort_values user_data sub ch)"
proof -
  define topic_data where "topic_data = sort_values (topic_rows user_data sub ch)"
  have "mset topic_data = mset (topic_rows user_data sub ch)"
    using assms(2) by (simp add: topic_data_def date_sorted_permutation_def)
  then have "set topic_data = set (topic_rows user_data sub ch)" by (rule mset_eq_setD)
  then have sub: "set topic_data \<subseteq> set user_data" by (auto simp: topic_rows_def)
  show ?thesis
  proof (cases "length topic_data < 2")
    case True
    have "fin_between (- 4) 4 (Fin 0)" by (simp add: fin_between_def)
    with True show ?thesis
      by (simp add: calculate_improvement_trend_def topic_data_def [symmetric])
  next
    case False
    define mid where "mid = length topic_data div 2"
    have mid: "0 < mid" "mid < length topic_data" using False by (simp_all add: mid_def)
    have r: "\<forall>x\<in>set (map confidence_rating (take mid topic_data)). 1 \<le> x \<and> x \<le> 5"
      "\<forall>x\<in>set (map confidence_rating (drop mid topic_data)). 1 \<le> x \<and> x \<le> 5"
      using assms(1) sub by (auto dest: in_set_takeD in_set_dropD)
    have ne: "map confidence_rating (take mid topic_data) \<noteq> []"
      "map confidence_rating (drop mid topic_data) \<noteq> []"
      using mid by auto
    obtain a where a: "series_mean (map confidence_rating (take mid topic_data)) = Fin a"
      "1 \<le> a" "a \<le> 5"
      using series_mean_between [OF ne(1) r(1)] by (rule fin_betweenE)
    obtain b where b: "series_mean (map confidence_rating (drop mid topic_data)) = Fin b"
      "1 \<le> b" "b \<le> 5"
      using series_mean_between [OF ne(2) r(2)] by (rule fin_betweenE)
    have "fin_between (rnd (- 4)) (rnd 4) (to_double (b - a))"
      using a b by (intro to_double_between) simp_all
    then show ?thesis
      using False
      by (simp add: calculate_improvement_trend_def topic_data_def [symmetric] Let_def
          mid_def [symmetric] a b fsub_Fin)
  qed
qed

lemma fold_min_le: "fold min xs (a::int) \<le> a"
proof (induction xs arbitrary: a)
  case Nil
  show ?case by simp
next
  case (Cons x xs)
  have "fold min xs (min x a) \<le> min x a" by (rule Cons)
  also have "\<dots> \<le> a" by simp
  finally show ?case by simp
qed

lemma fold_max_ge: "(a::int) \<le> fold max xs a"
proof (induction xs arbitrary: a)
  case Nil
  show ?case by simp
next
  case (Cons x xs)
  have "a \<le> max x a" by simp
  also have "\<dots> \<le> fold max xs (max x a)" by (rule Cons)
  finally show ?case by simp
qed

text \<open>The three statistics of a topic row that the score reads.\<close>

lemma topic_row_between:
  assumes "\<forall>s\<in>set user_data. 1 \<le> confidence_rating s \<and> confidence_rating s \<le> 5"
    and "length user_data \<le> 2 ^ 53"
    and "key \<in> set (topic_keys user_data)"
    and "sort_values_contract sort_values user_data"
  shows "fin_between 1 5 (confidence_rating_mean (topic_row sort_values user_data key))"
    and "fin_between (- 4) 4 (improvement_trend (topic_row sort_values user_data key))"
    and "fin_between 0 (2 ^ 53) (consistency_score (topic_row sort_values user_data key))"
proof -
  define rows where "rows = topic_rows user_data (fst key) (snd key)"
  obtain s where s: "s \<in> set user_data" "key = (subject s, chapter_name s)"
    using assms(3) by (auto simp: topic_keys_def)
  then have "s \<in> set rows" by (simp add: rows_def topic_rows_def)
  then have ne: "rows \<noteq> []" by auto
  have sub: "set rows \<subseteq> set user_data" by (auto simp: rows_def topic_rows_def)
  have "fin_between 1 5 (series_mean (map confidence_rating rows))"
    using ne assms(1) sub by (intro series_mean_between) auto
  then have "fin_between 1 5 (np_round2 (series_mean (map confidence_rating rows)))"
    by (rule np_round2_between)
  then show "fin_between 1 5 (confidence_rating_mean (topic_row sort_values user_data key))"
    by (simp add: topic_row_def Let_def rows_def)
  have "date_sorted_permutation (topic_rows user_data (fst key) (snd key))
          (sort_values (topic_rows user_data (fst key) (snd key)))"
    using assms(3,4) by (simp add: sort_values_contract_def list_all_iff)
  with assms(1)
  have "fin_between (- 4) 4 (calculate_improvement_trend sort_values user_data (fst key) (snd key))"
    by (rule calculate_improvement_trend_between)
  then show "fin_between (- 4) 4 (improvement_trend (topic_row sort_values user_data key))"
    by (simp add: topic_row_def Let_def)
  define dates where "dates = map date rows"
  define days where "days = fold max (tl dates) (hd dates) - fold min (tl dates) (hd dates) + 1"
  have "fold min (tl dates) (hd dates) \<le> hd dates" by (rule fold_min_le)
  also have "hd dates \<le> fold max (tl dates) (hd dates)" by (rule fold_max_ge)
  finally have d1: "1 \<le> days" by (simp add: days_def)
  then have dr: "(1::rat) \<le> of_int days" by simp
  have "length rows \<le> length user_data" by (simp add: rows_def topic_rows_def)
  with assms(2) have "int (length rows) \<le> 2 ^ 53" by simp
  then have "(of_int (int (length rows)) :: rat) \<le> of_int (2 ^ 53)"
    by (simp only: of_int_le_iff)
  then have n: "(of_int (int (length rows)) :: rat) \<le> 2 ^ 53" by simp
  have "(of_int (int (length rows)) :: rat) / of_int days \<le> of_int (int (length rows)) / 1"
    using dr by (intro divide_left_mono) simp_all
  with n have hi: "(of_int (int (length rows)) :: rat) / of_int days \<le> 2 ^ 53" by simp
  have lo: "0 \<le> (of_int (int (length rows)) :: rat) / of_int days" using dr by simp
  have r53: "rnd (2 ^ 53) = 2 ^ 53" by (rule rnd_pow2)
  have cs: "consistency_score (topic_row sort_values user_data key)
              = to_double (of_int (int (length rows)) / of_int days)"
    by (simp add: topic_row_def Let_def rows_def dates_def days_def)
  have "fin_between (rnd 0) (rnd (2 ^ 53))
          (to_double (of_int (int (length rows)) / of_int days))"
    using lo hi by (rule to_double_between) simp_all
  then show "fin_between 0 (2 ^ 53) (consistency_score (topic_row sort_values user_data key))"
    unfolding cs by (simp only: rnd_0 r53)
qed


lemma py_max_Fin: "py_max (Fin a) (Fin b) = Fin (max a b)"
  by (auto simp: py_max_def max_def)

lemma rnd_unit_between: "0 \<le> q \<Longrightarrow> q \<le> 1 \<Longrightarrow> 0 \<le> rnd q \<and> rnd q \<le> 1"
  using rnd_mono [of 0 q] rnd_mono [of q 1] by (simp add: rnd_1)

text \<open>
  The score of a topic row with a mean in \<open>[1, 5]\<close>, a non-negative consistency and a trend
  not below \<open>-2T\<close> (for \<open>T\<close> up to 2): each of the three weighted factors is bounded, and
  rounding is monotone.
\<close>

lemma weakness_score_between:
  assumes m: "fin_between 1 5 (confidence_rating_mean topic)"
    and t: "fin_between (- 2 * T) 4 (improvement_trend topic)"
    and c: "fin_between 0 (2 ^ 53) (consistency_score topic)"
    and T: "0 \<le> T" "T \<le> 2"
  shows "fin_between 0 (rnd (rnd (1 / 2 + rnd (rnd T * rnd (3 / 10))) + rnd (rnd (2 / 10))))
           (calculate_weakness_score topic)"
proof -
  from m obtain mv where mv: "confidence_rating_mean topic = Fin mv" "1 \<le> mv" "mv \<le> 5"
    by (rule fin_betweenE)
  from t obtain tv where tv: "improvement_trend topic = Fin tv" "- 2 * T \<le> tv" "tv \<le> 4"
    by (rule fin_betweenE)
  from c obtain cv where cv: "consistency_score topic = Fin cv" "0 \<le> cv"
    by (rule fin_betweenE)
  define c3 where "c3 = rnd (3 / 10)"
  define c2 where "c2 = rnd (2 / 10)"
  have l5: "lit (1 / 2) = Fin (1 / 2)" by (simp add: lit_Fin rnd_half)
  have l3: "lit (3 / 10) = Fin c3" by (simp add: lit_Fin c3_def)
  have l2: "lit (2 / 10) = Fin c2" by (simp add: lit_Fin c2_def)
  have c3: "0 \<le> c3" "c3 \<le> 1" using rnd_unit_between [of "3 / 10"] by (simp_all add: c3_def)
  have c2: "0 \<le> c2" "c2 \<le> 1" using rnd_unit_between [of "2 / 10"] by (simp_all add: c2_def)
  have rT: "0 \<le> rnd T" "rnd T \<le> 2"
    using rnd_mono [of 0 T] rnd_mono [of T 2] T by simp_all
  text \<open>the confidence factor\<close>
  have "fin_between (rnd 0) (rnd 4) (to_double (5 - mv))"
    using mv by (intro to_double_between) simp_all
  then obtain a where a: "to_double (5 - mv) = Fin a" "0 \<le> a" "a \<le> 4"
    by (rule fin_betweenE) simp
  have "fin_between (rnd 0) (rnd 1) (to_double (a / 4))"
    using a by (intro to_double_between) simp_all
  then obtain cf where cf: "to_double (a / 4) = Fin cf" "0 \<le> cf" "cf \<le> 1"
    by (rule fin_betweenE) (simp add: rnd_1)
  have "fin_between (rnd 0) (rnd (1 / 2)) (to_double (cf * (1 / 2)))"
    using cf by (intro to_double_between) simp_all
  then obtain A where A: "to_double (cf * (1 / 2)) = Fin A" "0 \<le> A" "A \<le> 1 / 2"
    by (rule fin_betweenE) (simp add: rnd_half)
  text \<open>the trend factor\<close>
  have "fin_between (rnd (- 2)) (rnd T) (to_double (- tv / 2))"
    using tv T by (intro to_double_between) simp_all
  then obtain q where q: "to_double (- tv / 2) = Fin q" "q \<le> rnd T"
    by (rule fin_betweenE)
  have tf: "0 \<le> max 0 q" "max 0 q \<le> rnd T" using q rT by simp_all
  have "max 0 q * c3 \<le> rnd T * c3" using tf c3 by (intro mult_right_mono) simp_all
  moreover have "rnd T * c3 \<le> 2 * 1" using rT c3 by (intro mult_mono) simp_all
  moreover have "0 \<le> max 0 q * c3" using tf c3 by simp
  ultimately have "fin_between (rnd 0) (rnd (rnd T * c3)) (to_double (max 0 q * c3))"
    by (intro to_double_between) simp_all
  then obtain B where B: "to_double (max 0 q * c3) = Fin B" "0 \<le> B" "B \<le> rnd (rnd T * c3)"
    by (rule fin_betweenE) simp
  have BH: "rnd (rnd T * c3) \<le> 2"
    using rnd_mono [of "rnd T * c3" 2] \<open>rnd T * c3 \<le> 2 * 1\<close> by simp
  text \<open>the consistency factor\<close>
  have mn: "0 \<le> min 1 cv" "min 1 cv \<le> 1" using cv by simp_all
  have "fin_between (rnd 0) (rnd 1) (to_double (1 - min 1 cv))"
    using mn by (intro to_double_between) simp_all
  then obtain k where k: "to_double (1 - min 1 cv) = Fin k" "0 \<le> k" "k \<le> 1"
    by (rule fin_betweenE) (simp add: rnd_1)
  have "k * c2 \<le> 1 * c2" using k c2 by (intro mult_right_mono) simp_all
  moreover have "0 \<le> k * c2" using k c2 by simp
  ultimately have "fin_between (rnd 0) (rnd c2) (to_double (k * c2))"
    using c2 by (intro to_double_between) simp_all
  then obtain C where C: "to_double (k * c2) = Fin C" "0 \<le> C" "C \<le> rnd c2"
    by (rule fin_betweenE) simp
  have CH: "rnd c2 \<le> 1" using rnd_unit_between [of c2] c2 by simp
  text \<open>the two sums\<close>
  have "fin_between (rnd 0) (rnd (1 / 2 + rnd (rnd T * c3))) (to_double (A + B))"
    using A B BH by (intro to_double_between) simp_all
  then obtain S where S: "to_double (A + B) = Fin S" "0 \<le> S" "S \<le> rnd (1 / 2 + rnd (rnd T * c3))"
    by (rule fin_betweenE) simp
  have SH: "rnd (1 / 2 + rnd (rnd T * c3)) \<le> 4"
    using rnd_mono [of "1 / 2 + rnd (rnd T * c3)" 4] BH by simp
  have "fin_between (rnd 0) (rnd (rnd (1 / 2 + rnd (rnd T * c3)) + rnd c2)) (to_double (S + C))"
    using S C SH CH by (intro to_double_between) simp_all
  then have total: "fin_between 0 (rnd (rnd (1 / 2 + rnd (rnd T * c3)) + rnd c2))
                      (to_double (S + C))"
    by simp
  have A': "to_double (cf / 2) = Fin A" using A(1) by simp
  have q': "to_double (- (tv / 2)) = Fin q" using q(1) by simp
  have "calculate_weakness_score topic = to_double (S + C)"
    unfolding calculate_weakness_score_def Let_def mv(1) tv(1) cv(1) l5 l3 l2
    by (simp add: fsub_Fin a cf A' q' py_max_Fin B py_min_Fin k C S)
  with total show ?thesis by (simp add: c3_def c2_def)
qed


lemma score_constants:
  "rnd (rnd (1 / 2 + rnd (rnd 2 * rnd (3 / 10))) + rnd (rnd (2 / 10))) \<le> 13 / 10 + 1 / 2 ^ 51"
  "rnd (rnd (1 / 2 + rnd (rnd 1 * rnd (3 / 10))) + rnd (rnd (2 / 10))) \<le> 1"
  by code_simp+

text \<open>
  C8 as stated fails: the trend factor \<open>max(0, -trend/2)\<close> reaches 2, not 1. Four sessions
  of one topic with ratings 5, 5, 1, 1 on days 0, 1, 2 and 100 (distinct dates, so their
  order after sorting is determined) have mean 3.0, trend -4.0 and consistency 4/101; the
  topic is reported as weak with the score 0.25 + 0.6 + 0.192... = 1.0420792079207921.
\<close>

theorem weakness_score_counterexample:
  "sort_values_contract (sort_key date)
      [\<lparr>date = 0, subject = ''Maths'', chapter_name = ''Algebra'', duration_minutes = 30,
        confidence_rating = 5, notes_text = [], timestamp = []\<rparr>,
       \<lparr>date = 1, subject = ''Maths'', chapter_name = ''Algebra'', duration_minutes = 30,
        confidence_rating = 5, notes_text = [], timestamp = []\<rparr>,
       \<lparr>date = 2, subject = ''Maths'', chapter_name = ''Algebra'', duration_minutes = 30,
        confidence_rating = 1, notes_text = [], timestamp = []\<rparr>,
       \<lparr>date = 100, subject = ''Maths'', chapter_name = ''Algebra'', duration_minutes = 30,
        confidence_rating = 1, notes_text = [], timestamp = []\<rparr>]
   \<and> distinct (map date
      [\<lparr>date = 0, subject = ''Maths'', chapter_name = ''Algebra'', duration_minutes = 30,
        confidence_rating = 5, notes_text = [], timestamp = []\<rparr>,
       \<lparr>date = 1, subject = ''Maths'', chapter_name = ''Algebra'', duration_minutes = 30,
        confidence_rating = 5, notes_text = [], timestamp = []\<rparr>,
       \<lparr>date = 2, subject = ''Maths'', chapter_name = ''Algebra'', duration_minutes = 30,
        confidence_rating = 1, notes_text = [], timestamp = []\<rparr>,
       \<lparr>date = 100, subject = ''Maths'', chapter_name = ''Algebra'', duration_minutes = 30,
        confidence_rating = 1, notes_text = [], timestamp = []\<rparr>])
   \<and> map weakness_score (identify_weak_topics (prepare_topic_analysis (sort_key date)
      [\<lparr>date = 0, subject = ''Maths'', chapter_name = ''Algebra'', duration_minutes = 30,
        confidence_rating = 5, notes_text = [], timestamp = []\<rparr>,
       \<lparr>date = 1, subject = ''Maths'', chapter_name = ''Algebra'', duration_minutes = 30,
        confidence_rating = 5, notes_text = [], timestamp = []\<rparr>,
       \<lparr>date = 2, subject = ''Maths'', chapter_name = ''Algebra'', duration_minutes = 30,
        confidence_rating = 1, notes_text = [], timestamp = []\<rparr>,
       \<lparr>date = 100, subject = ''Maths'', chapter_name = ''Algebra'', duration_minutes = 30,
        confidence_rating = 1, notes_text = [], timestamp = []\<rparr>]))
     = [Fin (4693107532482621 / 2 ^ 52)]
   \<and> (1::rat) < 4693107532482621 / 2 ^ 52"
proof -
  have "map weakness_score (identify_weak_topics (prepare_topic_analysis (sort_key date)
      [\<lparr>date = 0, subject = ''Maths'', chapter_name = ''Algebra'', duration_minutes = 30,
        confidence_rating = 5, notes_text = [], timestamp = []\<rparr>,
       \<lparr>date = 1, subject = ''Maths'', chapter_name = ''Algebra'', duration_minutes = 30,
        confidence_rating = 5, notes_text = [], timestamp = []\<rparr>,
       \<lparr>date = 2, subject = ''Maths'', chapter_name = ''Algebra'', duration_minutes = 30,
        confidence_rating = 1, notes_text = [], timestamp = []\<rparr>,
       \<lparr>date = 100, subject = ''Maths'', chapter_name = ''Algebra'', duration_minutes = 30,
        confidence_rating = 1, notes_text = [], timestamp = []\<rparr>]))
     = [Fin (4693107532482621 / 2 ^ 52)]"
    by code_simp
  then show ?thesis by (simp add: sort_key_contract)
qed

text \<open>
  C8, amended. For every (subject, topic) group of a session table (of at most \<open>2\<^sup>5\<^sup>0\<close>
  rows, so that every sum of ratings is exact in double precision) whose confidence ratings lie in [1, 5], and in whatever order the sort by date
  leaves the sessions of one date, the weakness score is a finite number in [0, 1.3] (up
  to the rounding of the sum: at most \<open>1.3 + 2\<^sup>-\<^sup>5\<^sup>1\<close>); it lies in [0, 1] whenever the
  improvement trend of the group is not below -2.
\<close>

theorem weakness_score_bounds:
  assumes "\<forall>s\<in>set user_data. 1 \<le> confidence_rating s \<and> confidence_rating s \<le> 5"
    and "length user_data \<le> 2 ^ 50"
    and "sort_values_contract sort_values user_data"
    and "topic \<in> set (prepare_topic_analysis sort_values user_data)"
  shows "\<exists>v t. calculate_weakness_score topic = Fin v \<and> improvement_trend topic = Fin t
           \<and> 0 \<le> v \<and> v \<le> 13 / 10 + 1 / 2 ^ 51 \<and> (- 2 \<le> t \<longrightarrow> v \<le> 1)"
proof -
  from assms(4) obtain key where key: "key \<in> set (topic_keys user_data)"
    and topic: "topic = topic_row sort_values user_data key"
    by (auto simp: prepare_topic_analysis_def)
  have "(2::nat) ^ 50 \<le> 2 ^ 53" by simp
  with assms(2) have len: "length user_data \<le> 2 ^ 53" by (rule order_trans)
  note r = topic_row_between [OF assms(1) len key assms(3), folded topic]
  from r(2) obtain t where t: "improvement_trend topic = Fin t" "- 4 \<le> t" "t \<le> 4"
    by (rule fin_betweenE)
  have "fin_between (- 2 * 2) 4 (improvement_trend topic)" using r(2) by simp
  from weakness_score_between [OF r(1) this r(3)]
  obtain v where v: "calculate_weakness_score topic = Fin v" "0 \<le> v"
    "v \<le> rnd (rnd (1 / 2 + rnd (rnd 2 * rnd (3 / 10))) + rnd (rnd (2 / 10)))"
    by (auto elim: fin_betweenE)
  have small: "v \<le> 1" if "- 2 \<le> t"
  proof -
    have "fin_between (- 2 * 1) 4 (improvement_trend topic)"
      using t that by (simp add: fin_between_def)
    from weakness_score_between [OF r(1) this r(3)]
    have "fin_between 0 (rnd (rnd (1 / 2 + rnd (rnd 1 * rnd (3 / 10))) + rnd (rnd (2 / 10))))
            (calculate_weakness_score topic)"
      by simp
    with v(1) score_constants(2) show ?thesis by (auto simp: fin_between_def)
  qed
  from v score_constants(1) have "v \<le> 13 / 10 + 1 / 2 ^ 51" by linarith
  with v t small show ?thesis by blast
qed

theorem weakness_score_bounds_witness:
  "list_all (\<lambda>s. 1 \<le> confidence_rating s \<and> confidence_rating s \<le> 5)
      [\<lparr>date = 0, subject = ''Maths'', chapter_name = ''Algebra'', duration_minutes = 30,
        confidence_rating = 3, notes_text = [], timestamp = []\<rparr>,
       \<lparr>date = 1, subject = ''Maths'', chapter_name = ''Algebra'', duration_minutes = 30,
        confidence_rating = 3, notes_text = [], timestamp = []\<rparr>,
       \<lparr>date = 2, subject = ''Maths'', chapter_name = ''Algebra'', duration_minutes = 30,
        confidence_rating = 2, notes_text = [], timestamp = []\<rparr>,
       \<lparr>date = 3, subject = ''Maths'', chapter_name = ''Algebra'', duration_minutes = 30,
        confidence_rating = 2, notes_text = [], timestamp = []\<rparr>]
   \<and> length
      [\<lparr>date = 0, subject = ''Maths'', chapter_name = ''Algebra'', duration_minutes = 30,
        confidence_rating = 3, notes_text = [], timestamp = []\<rparr>,
       \<lparr>date = 1, subject = ''Maths'', chapter_name = ''Algebra'', duration_minutes = 30,
        confidence_rating = 3, notes_text = [], timestamp = []\<rparr>,
       \<lparr>date = 2, subject = ''Maths'', chapter_name = ''Algebra'', duration_minutes = 30,
        confidence_rating = 2, notes_text = [], timestamp = []\<rparr>,
       \<lparr>date = 3, subject = ''Maths'', chapter_name = ''Algebra'', duration_minutes = 30,
        confidence_rating = 2, notes_text = [], timestamp = []\<rparr>] \<le> 2 ^ 50
   \<and> sort_values_contract (sort_key date)
      [\<lparr>date = 0, subject = ''Maths'', chapter_name = ''Algebra'', duration_minutes = 30,
        confidence_rating = 3, notes_text = [], timestamp = []\<rparr>,
       \<lparr>date = 1, subject = ''Maths'', chapter_name = ''Algebra'', duration_minutes = 30,
        confidence_rating = 3, notes_text = [], timestamp = []\<rparr>,
       \<lparr>date = 2, subject = ''Maths'', chapter_name = ''Algebra'', duration_minutes = 30,
        confidence_rating = 2, notes_text = [], timestamp = []\<rparr>,
       \<lparr>date = 3, subject = ''Maths'', chapter_name = ''Algebra'', duration_minutes = 30,
        confidence_rating = 2, notes_text = [], timestamp = []\<rparr>]
   \<and> hd (prepare_topic_analysis (sort_key date)
      [\<lparr>date = 0, subject = ''Maths'', chapter_name = ''Algebra'', duration_minutes = 30,
        confidence_rating = 3, notes_text = [], timestamp = []\<rparr>,
       \<lparr>date = 1, subject = ''Maths'', chapter_name = ''Algebra'', duration_minutes = 30,
        confidence_rating = 3, notes_text = [], timestamp = []\<rparr>,
       \<lparr>date = 2, subject = ''Maths'', chapter_name = ''Algebra'', duration_minutes = 30,
        confidence_rating = 2, notes_text = [], timestamp = []\<rparr>,
       \<lparr>date = 3, subject = ''Maths'', chapter_name = ''Algebra'', duration_minutes = 30,
        confidence_rating = 2, notes_text = [], timestamp = []\<rparr>])
     \<in> set (prepare_topic_analysis (sort_key date)
      [\<lparr>date = 0, subject = ''Maths'', chapter_name = ''Algebra'', duration_minutes = 30,
        confidence_rating = 3, notes_text = [], timestamp = []\<rparr>,
       \<lparr>date = 1, subject = ''Maths'', chapter_name = ''Algebra'', duration_minutes = 30,
        confidence_rating = 3, notes_text = [], timestamp = []\<rparr>,
       \<lparr>date = 2, subject = ''Maths'', chapter_name = ''Algebra'', duration_minutes = 30,
        confidence_rating = 2, notes_text = [], timestamp = []\<rparr>,
       \<lparr>date = 3, subject = ''Maths'', chapter_name = ''Algebra'', duration_minutes = 30,
        confidence_rating = 2, notes_text = [], timestamp = []\<rparr>])
   \<and> (\<exists>v t.
        calculate_weakness_score (hd (prepare_topic_analysis (sort_key date)
      [\<lparr>date = 0, subject = ''Maths'', chapter_name = ''Algebra'', duration_minutes = 30,
        confidence_rating = 3, notes_text = [], timestamp = []\<rparr>,
       \<lparr>date = 1, subject = ''Maths'', chapter_name = ''Algebra'', duration_minutes = 30,
        confidence_rating = 3, notes_text = [], timestamp = []\<rparr>,
       \<lparr>date = 2, subject = ''Maths'', chapter_name = ''Algebra'', duration_minutes = 30,
        confidence_rating = 2, notes_text = [], timestamp = []\<rparr>,
       \<lparr>date = 3, subject = ''Maths'', chapter_name = ''Algebra'', duration_minutes = 30,
        confidence_rating = 2, notes_text = [], timestamp = []\<rparr>])) = Fin v
        \<and> improvement_trend (hd (prepare_topic_analysis (sort_key date)
      [\<lparr>date = 0, subject = ''Maths'', chapter_name = ''Algebra'', duration_minutes = 30,
        confidence_rating = 3, notes_text = [], timestamp = []\<rparr>,
       \<lparr>date = 1, subject = ''Maths'', chapter_name = ''Algebra'', duration_minutes = 30,
        confidence_rating = 3, notes_text = [], timestamp = []\<rparr>,
       \<lparr>date = 2, subject = ''Maths'', chapter_name = ''Algebra'', duration_minutes = 30,
        confidence_rating = 2, notes_text = [], timestamp = []\<rparr>,
       \<lparr>date = 3, subject = ''Maths'', chapter_name = ''Algebra'', duration_minutes = 30,
        confidence_rating = 2, notes_text = [], timestamp = []\<rparr>])) = Fin t
        \<and> 0 \<le> v \<and> v \<le> 13 / 10 + 1 / 2 ^ 51 \<and> - 2 \<le> t \<and> v \<le> 1)"
proof -
  let ?d = "[\<lparr>date = 0, subject = ''Maths'', chapter_name = ''Algebra'', duration_minutes = 30,
        confidence_rating = 3, notes_text = [], timestamp = []\<rparr>,
       \<lparr>date = 1, subject = ''Maths'', chapter_name = ''Algebra'', duration_minutes = 30,
        confidence_rating = 3, notes_text = [], timestamp = []\<rparr>,
       \<lparr>date = 2, subject = ''Maths'', chapter_name = ''Algebra'', duration_minutes = 30,
        confidence_rating = 2, notes_text = [], timestamp = []\<rparr>,
       \<lparr>date = 3, subject = ''Maths'', chapter_name = ''Algebra'', duration_minutes = 30,
        confidence_rating = 2, notes_text = [], timestamp = []\<rparr>]"
  have h1: "\<forall>s\<in>set ?d. 1 \<le> confidence_rating s \<and> confidence_rating s \<le> 5" by simp
  have h2: "length ?d \<le> 2 ^ 50" by simp
  have h3: "sort_values_contract (sort_key date) ?d" by (rule sort_key_contract)
  have "topic_keys ?d = [(''Maths'', ''Algebra'')]" by code_simp
  then have "prepare_topic_analysis (sort_key date) ?d \<noteq> []"
    by (simp add: prepare_topic_analysis_def)
  then have h4: "hd (prepare_topic_analysis (sort_key date) ?d)
                   \<in> set (prepare_topic_analysis (sort_key date) ?d)"
    by (rule hd_in_set)
  have t: "improvement_trend (hd (prepare_topic_analysis (sort_key date) ?d)) = Fin (- 1)"
    by code_simp
  from weakness_score_bounds [OF h1 h2 h3 h4] t
  have "\<exists>v t.
        calculate_weakness_score (hd (prepare_topic_analysis (sort_key date) ?d)) = Fin v
        \<and> improvement_trend (hd (prepare_topic_analysis (sort_key date) ?d)) = Fin t
        \<and> 0 \<le> v \<and> v \<le> 13 / 10 + 1 / 2 ^ 51 \<and> - 2 \<le> t \<and> v \<le> 1"
    by auto
  with h2 h3 h4 show ?thesis by simp
qed

end
